theory Spec2Isabelle
  imports Main "HOL-Library.Sublist"
begin

section \<open>Log path resolution of the Pesapal service (pesapal_service_fix.py)\<close>

text \<open>
  The patch computes \<open>log_path\<close> from the process environment and the host's path
  conventions, creates its parent directory with \<open>os.makedirs(..., exist_ok=True)\<close> and
  falls back to a path under \<open>/tmp\<close> when that raises \<open>OSError\<close>.

  The script is embedded as the function \<open>resolve\<close>: it takes the host (\<open>os.name\<close>,
  \<open>os.environ\<close>, \<open>os.getcwd()\<close>) and the file system, and returns the file system it
  leaves behind together with either the raised \<open>OSError\<close> or the final \<open>log_path\<close>.

  The standard-library functions the script calls are embedded after CPython 3.11:
  \<open>posixpath\<close> and \<open>ntpath\<close> (\<open>join\<close>, \<open>split\<close>, \<open>dirname\<close>, \<open>splitdrive\<close>) and
  \<open>os.makedirs\<close>. The operating system below them (\<open>mkdir\<close>, \<open>exists\<close>, \<open>isdir\<close>) is a
  file system of directories and other entries at locations (lists of names); symbolic
  links and the meaning of \<open>..\<close> are outside the model, and Windows names are compared
  as written. Strings are lists of 8-bit characters.
\<close>

subsection \<open>Strings\<close>

abbreviation bsl :: char where
  "bsl \<equiv> CHR 0x5C"

definition startswith :: "string \<Rightarrow> string \<Rightarrow> bool" where
  \<comment> \<open>\<open>s.startswith(pre)\<close>\<close>
  "startswith s pre = prefix pre s"

definition rstrip :: "char list \<Rightarrow> string \<Rightarrow> string" where
  \<comment> \<open>\<open>s.rstrip(seps)\<close>\<close>
  "rstrip seps s = rev (dropWhile (\<lambda>c. c \<in> set seps) (rev s))"

definition cut_last :: "char list \<Rightarrow> string \<Rightarrow> string \<times> string" where
  \<comment> \<open>\<open>(p[:i], p[i:])\<close> with \<open>i\<close> the index just after the last separator of \<open>p\<close>, 0 if none\<close>
  "cut_last seps p =
     (rev (dropWhile (\<lambda>c. c \<notin> set seps) (rev p)),
      rev (takeWhile (\<lambda>c. c \<notin> set seps) (rev p)))"

definition find_from :: "char \<Rightarrow> string \<Rightarrow> nat \<Rightarrow> nat option" where
  \<comment> \<open>\<open>s.find(c, start)\<close>, \<open>None\<close> for -1\<close>
  "find_from c s start =
     (let r = dropWhile (\<lambda>x. x \<noteq> c) (drop start s)
      in if r = [] then None else Some (length s - length r))"

definition upper_char :: "char \<Rightarrow> char" where
  \<comment> \<open>\<open>str.upper\<close> on one character, ASCII letters only\<close>
  "upper_char c =
     (if 97 \<le> (of_char c :: nat) \<and> (of_char c :: nat) \<le> 122
      then char_of ((of_char c :: nat) - 32) else c)"

definition lower_char :: "char \<Rightarrow> char" where
  \<comment> \<open>\<open>str.lower\<close> on one character, ASCII letters only\<close>
  "lower_char c =
     (if 65 \<le> (of_char c :: nat) \<and> (of_char c :: nat) \<le> 90
      then char_of ((of_char c :: nat) + 32) else c)"

subsection \<open>posixpath\<close>

fun posix_join :: "string \<Rightarrow> string list \<Rightarrow> string" where
  "posix_join path [] = path"
| "posix_join path (b # bs) =
     posix_join
       (if startswith b ''/'' then b
        else if path = [] \<or> last path = CHR ''/'' then path @ b
        else path @ ''/'' @ b) bs"

definition posix_split :: "string \<Rightarrow> string \<times> string" where
  "posix_split p =
     (let (head, tail) = cut_last ''/'' p
      in (if head \<noteq> [] \<and> head \<noteq> replicate (length head) CHR ''/''
          then rstrip ''/'' head else head, tail))"

definition posix_dirname :: "string \<Rightarrow> string" where
  "posix_dirname p =
     (let head = fst (cut_last ''/'' p)
      in if head \<noteq> [] \<and> head \<noteq> replicate (length head) CHR ''/''
         then rstrip ''/'' head else head)"

subsection \<open>ntpath\<close>

definition nt_seps :: "char list" where
  "nt_seps = [bsl, CHR ''/'']"

definition unc_prefix :: string where
  "unc_prefix = [bsl, bsl, CHR ''?'', bsl, CHR ''U'', CHR ''N'', CHR ''C'', bsl]"

definition nt_splitdrive :: "string \<Rightarrow> string \<times> string" where
  "nt_splitdrive p =
     (if 2 \<le> length p then
        (let normp = map (\<lambda>c. if c = CHR ''/'' then bsl else c) p in
         if take 2 normp = [bsl, bsl] then
           (let start = (if map upper_char (take 8 normp) = unc_prefix then 8 else 2 :: nat) in
            case find_from bsl normp start of
              None \<Rightarrow> (p, [])
            | Some index \<Rightarrow>
                (case find_from bsl normp (index + 1) of
                   None \<Rightarrow> (p, [])
                 | Some index2 \<Rightarrow> (take index2 p, drop index2 p)))
         else if take 1 (drop 1 normp) = '':'' then (take 2 p, drop 2 p)
         else ([], p))
      else ([], p))"

fun nt_join_loop :: "string \<Rightarrow> string \<Rightarrow> string list \<Rightarrow> string \<times> string" where
  "nt_join_loop result_drive result_path [] = (result_drive, result_path)"
| "nt_join_loop result_drive result_path (p # ps) =
     (let (p_drive, p_path) = nt_splitdrive p in
      if p_path \<noteq> [] \<and> hd p_path \<in> set nt_seps then
        nt_join_loop (if p_drive \<noteq> [] \<or> result_drive = [] then p_drive else result_drive)
          p_path ps
      else if p_drive \<noteq> [] \<and> p_drive \<noteq> result_drive
              \<and> map lower_char p_drive \<noteq> map lower_char result_drive then
        nt_join_loop p_drive p_path ps
      else
        nt_join_loop
          (if p_drive \<noteq> [] \<and> p_drive \<noteq> result_drive then p_drive else result_drive)
          ((if result_path \<noteq> [] \<and> last result_path \<notin> set nt_seps
            then result_path @ [bsl] else result_path) @ p_path)
          ps)"

definition nt_join :: "string \<Rightarrow> string list \<Rightarrow> string" where
  "nt_join path paths =
     (let (result_drive, result_path) = nt_splitdrive path;
          (result_drive, result_path) = nt_join_loop result_drive result_path paths
      in if result_path \<noteq> [] \<and> hd result_path \<notin> set nt_seps
            \<and> result_drive \<noteq> [] \<and> last result_drive \<noteq> CHR '':''
         then result_drive @ [bsl] @ result_path
         else result_drive @ result_path)"

definition nt_split :: "string \<Rightarrow> string \<times> string" where
  "nt_split p =
     (let (d, q) = nt_splitdrive p;
          (head, tail) = cut_last nt_seps q
      in (d @ (if rstrip nt_seps head = [] then head else rstrip nt_seps head), tail))"

definition nt_dirname :: "string \<Rightarrow> string" where
  "nt_dirname p = fst (nt_split p)"

subsection \<open>The host: \<open>os.name\<close>, \<open>os.environ\<close>, \<open>os.getcwd()\<close>, \<open>os.path\<close>\<close>

record host =
  os_name :: string
  environ :: "string \<rightharpoonup> string"
  getcwd :: string

definition getenv :: "host \<Rightarrow> string \<Rightarrow> string \<Rightarrow> string" where
  \<comment> \<open>\<open>os.getenv(key, default)\<close>\<close>
  "getenv h key dflt = (case environ h key of Some v \<Rightarrow> v | None \<Rightarrow> dflt)"

definition is_nt :: "host \<Rightarrow> bool" where
  \<comment> \<open>\<open>os.path\<close> is \<open>ntpath\<close> exactly when \<open>os.name == 'nt'\<close>\<close>
  "is_nt h = (os_name h = ''nt'')"

definition path_join :: "host \<Rightarrow> string \<Rightarrow> string list \<Rightarrow> string" where
  "path_join h a ps = (if is_nt h then nt_join a ps else posix_join a ps)"

definition path_split :: "host \<Rightarrow> string \<Rightarrow> string \<times> string" where
  "path_split h p = (if is_nt h then nt_split p else posix_split p)"

definition path_dirname :: "host \<Rightarrow> string \<Rightarrow> string" where
  "path_dirname h p = (if is_nt h then nt_dirname p else posix_dirname p)"

subsection \<open>The file system\<close>

datatype oserror = FileExistsError | FileNotFoundError | NotADirectoryError | PermissionError

type_synonym location = "string list"

text \<open>
  \<open>dirs\<close> are the directories, \<open>files\<close> the entries that are not directories, and
  \<open>refused\<close> the locations at which the operating system refuses to create a directory
  (no write permission on the parent, a read-only mount, a name that is too long).
  A location is a drive followed by the names below its root. The drive is the one
  \<open>splitdrive\<close> finds (a drive letter with its colon, or a UNC share), and empty on POSIX.
  The root of a drive is always a directory.
\<close>

record filesystem =
  dirs :: "location set"
  files :: "location set"
  refused :: "location set"

fun split_on :: "char list \<Rightarrow> string \<Rightarrow> string list" where
  "split_on seps [] = [[]]"
| "split_on seps (c # cs) =
     (if c \<in> set seps then [] # split_on seps cs
      else (case split_on seps cs of
              [] \<Rightarrow> [[c]]
            | x # xs \<Rightarrow> (c # x) # xs))"

definition names :: "char list \<Rightarrow> string \<Rightarrow> location" where
  \<comment> \<open>the names along a path; empty names and \<open>.\<close> stay where they are\<close>
  "names seps p = filter (\<lambda>n. n \<noteq> [] \<and> n \<noteq> ''.'') (split_on seps p)"

definition path_seps :: "host \<Rightarrow> char list" where
  "path_seps h = (if is_nt h then nt_seps else ''/'')"

definition splitdrive :: "host \<Rightarrow> string \<Rightarrow> string \<times> string" where
  \<comment> \<open>\<open>os.path.splitdrive\<close>; \<open>posixpath.splitdrive(p)\<close> is \<open>('', p)\<close>\<close>
  "splitdrive h p = (if is_nt h then nt_splitdrive p else ([], p))"

definition locate :: "host \<Rightarrow> string \<Rightarrow> location" where
  \<comment> \<open>where the operating system finds a path: absolute paths from the root of their
      drive (the drive of the working directory when they name none), others from the
      working directory\<close>
  "locate h p =
     (let (d, q) = splitdrive h p;
          (cd, cq) = splitdrive h (getcwd h)
      in if q \<noteq> [] \<and> hd q \<in> set (path_seps h)
         then (if d = [] then cd else d) # names (path_seps h) q
         else if d = [] \<or> d = cd then cd # names (path_seps h) cq @ names (path_seps h) q
         else d # names (path_seps h) q)"

definition is_dir_at :: "filesystem \<Rightarrow> location \<Rightarrow> bool" where
  "is_dir_at fs loc = (length loc \<le> 1 \<or> loc \<in> dirs fs)"

definition path_exists :: "host \<Rightarrow> filesystem \<Rightarrow> string \<Rightarrow> bool" where
  \<comment> \<open>\<open>os.path.exists\<close>\<close>
  "path_exists h fs p = (p \<noteq> [] \<and> (is_dir_at fs (locate h p) \<or> locate h p \<in> files fs))"

definition path_isdir :: "host \<Rightarrow> filesystem \<Rightarrow> string \<Rightarrow> bool" where
  \<comment> \<open>\<open>os.path.isdir\<close>\<close>
  "path_isdir h fs p = (p \<noteq> [] \<and> is_dir_at fs (locate h p))"

definition last_name :: "host \<Rightarrow> string \<Rightarrow> string" where
  \<comment> \<open>the last component of a path as written, trailing separators dropped\<close>
  "last_name h p =
     snd (cut_last (path_seps h) (rstrip (path_seps h) p))"

definition mkdir :: "host \<Rightarrow> filesystem \<Rightarrow> string \<Rightarrow> filesystem \<times> oserror option" where
  \<comment> \<open>\<open>os.mkdir(p)\<close>: the new file system and the \<open>OSError\<close> raised, if any\<close>
  "mkdir h fs p =
     (let loc = locate h p in
      if p = [] then (fs, Some FileNotFoundError)
      else if last_name h p = [] \<or> last_name h p = ''.'' then
        (fs, Some (if is_dir_at fs loc then FileExistsError else FileNotFoundError))
      else if butlast loc \<in> files fs then (fs, Some NotADirectoryError)
      else if \<not> is_dir_at fs (butlast loc) then (fs, Some FileNotFoundError)
      else if is_dir_at fs loc \<or> loc \<in> files fs then (fs, Some FileExistsError)
      else if loc \<in> refused fs then (fs, Some PermissionError)
      else (fs\<lparr>dirs := insert loc (dirs fs)\<rparr>, None))"

subsection \<open>\<open>os.makedirs(name, exist_ok=True)\<close>\<close>

definition makedirs_split :: "host \<Rightarrow> string \<Rightarrow> string \<times> string" where
  \<comment> \<open>\<open>head, tail = path.split(name)\<close>, split again when \<open>tail\<close> is empty\<close>
  "makedirs_split h name =
     (let (head, tail) = path_split h name
      in if tail = [] then path_split h head else (head, tail))"

definition mkdir_exist_ok :: "host \<Rightarrow> filesystem \<Rightarrow> string \<Rightarrow> filesystem \<times> oserror option" where
  \<comment> \<open>the final \<open>try: mkdir(name, mode) except OSError: if not path.isdir(name): raise\<close>\<close>
  "mkdir_exist_ok h fs name =
     (case mkdir h fs name of
        (fs', None) \<Rightarrow> (fs', None)
      | (fs', Some e) \<Rightarrow> if path_isdir h fs' name then (fs', None) else (fs', Some e))"

text \<open>
  Each recursive call of \<open>makedirs\<close> is on the head of a split whose tail is not empty,
  which is shorter than the name: the recursion ends.
\<close>

lemma cut_last_append: "fst (cut_last seps p) @ snd (cut_last seps p) = p"
proof -
  have "rev (takeWhile (\<lambda>c. c \<notin> set seps) (rev p) @ dropWhile (\<lambda>c. c \<notin> set seps) (rev p)) = p"
    by (simp only: takeWhile_dropWhile_id rev_rev_ident)
  then show ?thesis by (simp add: cut_last_def del: rev_append add: rev_append [symmetric])
qed

lemma cut_last_length: "length (fst (cut_last seps p)) + length (snd (cut_last seps p)) = length p"
  using cut_last_append [of seps p] by (metis length_append)

lemma rstrip_length: "length (rstrip seps s) \<le> length s"
  by (simp add: rstrip_def) (metis length_dropWhile_le length_rev)

lemma posix_split_length:
  "length (fst (posix_split p)) + length (snd (posix_split p)) \<le> length p"
proof -
  obtain a b where ab: "cut_last ''/'' p = (a, b)" by (cases "cut_last ''/'' p")
  show ?thesis
    using cut_last_length [of "''/''" p] rstrip_length [of "''/''" a]
    by (simp add: posix_split_def ab)
qed

lemma nt_splitdrive_append: "fst (nt_splitdrive p) @ snd (nt_splitdrive p) = p"
  by (simp add: nt_splitdrive_def Let_def split: option.splits)

lemma nt_split_length:
  "length (fst (nt_split p)) + length (snd (nt_split p)) \<le> length p"
proof -
  obtain d q where dq: "nt_splitdrive p = (d, q)" by (cases "nt_splitdrive p")
  have p: "length d + length q = length p"
    using nt_splitdrive_append [of p] dq by (metis fst_conv snd_conv length_append)
  obtain a b where ab: "cut_last nt_seps q = (a, b)" by (cases "cut_last nt_seps q")
  show ?thesis
    using cut_last_length [of nt_seps q] rstrip_length [of nt_seps a] p
    by (simp add: nt_split_def dq ab)
qed

lemma path_split_length:
  "length (fst (path_split h p)) + length (snd (path_split h p)) \<le> length p"
  by (simp add: path_split_def posix_split_length nt_split_length)

lemma makedirs_split_shorter:
  assumes "snd (makedirs_split h name) \<noteq> []"
  shows "length (fst (makedirs_split h name)) < length name"
proof -
  obtain hd1 tl1 where s1: "path_split h name = (hd1, tl1)" by (cases "path_split h name")
  have l1: "length hd1 + length tl1 \<le> length name"
    using path_split_length [of h name] s1 by simp
  show ?thesis
  proof (cases "tl1 = []")
    case True
    then have eq: "makedirs_split h name = path_split h hd1"
      by (simp add: makedirs_split_def s1)
    have "length (fst (path_split h hd1)) + length (snd (path_split h hd1)) \<le> length hd1"
      by (rule path_split_length)
    moreover have "0 < length (snd (path_split h hd1))" using assms eq by simp
    ultimately show ?thesis using l1 unfolding eq by linarith
  next
    case False
    then have "makedirs_split h name = (hd1, tl1)" by (simp add: makedirs_split_def s1)
    then show ?thesis using l1 False by (cases tl1) auto
  qed
qed

function makedirs :: "host \<Rightarrow> filesystem \<Rightarrow> string \<Rightarrow> filesystem \<times> oserror option" where
  "makedirs h fs name =
     (if fst (makedirs_split h name) \<noteq> [] \<and> snd (makedirs_split h name) \<noteq> []
         \<and> \<not> path_exists h fs (fst (makedirs_split h name))
      then
        (case makedirs h fs (fst (makedirs_split h name)) of
           (fs1, Some e) \<Rightarrow>
             if e \<noteq> FileExistsError then (fs1, Some e)
             else if snd (makedirs_split h name) = ''.'' then (fs1, None)
             else mkdir_exist_ok h fs1 name
         | (fs1, None) \<Rightarrow>
             if snd (makedirs_split h name) = ''.'' then (fs1, None)
             else mkdir_exist_ok h fs1 name)
      else mkdir_exist_ok h fs name)"
  by pat_completeness auto
termination
  by (relation "measure (\<lambda>(h, fs, name). length name)") (auto intro: makedirs_split_shorter)

declare makedirs.simps [simp del]

subsection \<open>The script\<close>

definition default_log_dir :: "host \<Rightarrow> string" where
  \<comment> \<open>\<open>'/tmp' if os.name != 'nt' else os.getenv('TEMP', os.getcwd())\<close>\<close>
  "default_log_dir h = (if os_name h \<noteq> ''nt'' then ''/tmp'' else getenv h ''TEMP'' (getcwd h))"

definition log_path :: "host \<Rightarrow> string" where
  \<comment> \<open>the first value of \<open>log_path\<close> (lines 17 to 20)\<close>
  "log_path h =
     getenv h ''PESAPAL_LOG_PATH''
       (path_join h (default_log_dir h) [''pesapal_logs'', ''pesapal.log''])"

definition fallback_log_path :: "host \<Rightarrow> string" where
  \<comment> \<open>\<open>os.path.join('/tmp', 'pesapal_logs', 'pesapal.log')\<close> (line 28)\<close>
  "fallback_log_path h = path_join h ''/tmp'' [''pesapal_logs'', ''pesapal.log'']"

definition resolve :: "host \<Rightarrow> filesystem \<Rightarrow> filesystem \<times> (oserror + string)" where
  \<comment> \<open>lines 16 to 31: the file system left behind, and the error raised or the final \<open>log_path\<close>\<close>
  "resolve h fs =
     (case makedirs h fs (path_dirname h (log_path h)) of
        (fs1, None) \<Rightarrow> (fs1, Inr (log_path h))
      | (fs1, Some e) \<Rightarrow>
          if \<not> startswith (log_path h) ''/tmp'' then
            (case makedirs h fs1 (path_dirname h (fallback_log_path h)) of
               (fs2, None) \<Rightarrow> (fs2, Inr (fallback_log_path h))
             | (fs2, Some e2) \<Rightarrow> (fs2, Inl e2))
          else (fs1, Inl e))"

subsection \<open>Example hosts and file systems, and notions used in the proofs\<close>

definition posix_host :: "string \<Rightarrow> (string \<rightharpoonup> string) \<Rightarrow> host" where
  "posix_host cwd env = \<lparr>os_name = ''posix'', environ = env, getcwd = cwd\<rparr>"

definition nt_host :: "string \<Rightarrow> (string \<rightharpoonup> string) \<Rightarrow> host" where
  "nt_host cwd env = \<lparr>os_name = ''nt'', environ = env, getcwd = cwd\<rparr>"

definition mkfs :: "location list \<Rightarrow> location list \<Rightarrow> location list \<Rightarrow> filesystem" where
  "mkfs ds fls rs = \<lparr>dirs = set ds, files = set fls, refused = set rs\<rparr>"

definition needs_parents :: "host \<Rightarrow> filesystem \<Rightarrow> string \<Rightarrow> bool" where
  "needs_parents h fs name =
     (fst (makedirs_split h name) \<noteq> [] \<and> snd (makedirs_split h name) \<noteq> []
      \<and> \<not> path_exists h fs (fst (makedirs_split h name)))"

definition temp_dir :: string where
  "temp_dir = ''C:'' @ [bsl] @ ''Users'' @ [bsl] @ ''x'' @ [bsl] @ ''AppData'' @ [bsl] @ ''Local'' @ [bsl] @ ''Temp''"

definition temp_log_path :: string where
  "temp_log_path = temp_dir @ [bsl] @ ''pesapal_logs'' @ [bsl] @ ''pesapal.log''"

definition temp_loc :: location where
  "temp_loc = [''C:'', ''Users'', ''x'', ''AppData'', ''Local'', ''Temp'']"

definition temp_logs_dir :: string where
  "temp_logs_dir = temp_dir @ [bsl] @ ''pesapal_logs''"

definition win_host :: host where
  "win_host = nt_host (''C:'' @ [bsl] @ ''app'') [''TEMP'' \<mapsto> temp_dir]"

definition nt_fallback :: string where
  "nt_fallback = ''/tmp'' @ [bsl] @ ''pesapal_logs'' @ [bsl] @ ''pesapal.log''"

definition gstrip :: "char list \<Rightarrow> string \<Rightarrow> string" where
  "gstrip seps s = (if rstrip seps s = [] then s else rstrip seps s)"

definition nt_norm :: "string \<Rightarrow> string" where
  "nt_norm p = map (\<lambda>c. if c = CHR ''/'' then bsl else c) p"

definition split_parts :: "host \<Rightarrow> string \<Rightarrow> string \<Rightarrow> string \<Rightarrow> string \<Rightarrow> string \<Rightarrow> string \<Rightarrow> bool" where
  "split_parts h p head tail d h0 r =
     (splitdrive h p = (d, h0 @ tail) \<and> p = d @ h0 @ tail
      \<and> head = d @ gstrip (path_seps h) h0 \<and> h0 = gstrip (path_seps h) h0 @ r
      \<and> set r \<subseteq> set (path_seps h) \<and> set tail \<inter> set (path_seps h) = {}
      \<and> (r = [] \<longrightarrow> set h0 \<subseteq> set (path_seps h))
      \<and> splitdrive h head = (d, gstrip (path_seps h) h0))"

definition extends :: "filesystem \<Rightarrow> filesystem \<Rightarrow> bool" where
  "extends fs fs' = (dirs fs \<subseteq> dirs fs' \<and> files fs' = files fs \<and> refused fs' = refused fs)"

definition bare_host :: host where
  "bare_host = posix_host ''/srv/app'' [''PESAPAL_LOG_PATH'' \<mapsto> ''pesapal.log'']"

section \<open>Properties\<close>

subsection \<open>Auxiliary lemmas\<close>

lemmas path_defs = path_join_def path_split_def path_dirname_def is_nt_def posix_split_def
  posix_dirname_def cut_last_def rstrip_def startswith_def nt_split_def nt_dirname_def
  nt_splitdrive_def nt_join_def nt_seps_def find_from_def unc_prefix_def upper_char_def
  lower_char_def getenv_def

lemmas fs_defs = locate_def path_seps_def splitdrive_def names_def is_dir_at_def
  path_exists_def path_isdir_def last_name_def mkdir_def mkdir_exist_ok_def makedirs_split_def
  makedirs.simps

lemmas script_defs = default_log_dir_def log_path_def fallback_log_path_def resolve_def

lemmas fixture_defs = posix_host_def nt_host_def mkfs_def

lemma makedirs_leaf: "\<not> needs_parents h fs name \<Longrightarrow> makedirs h fs name = mkdir_exist_ok h fs name"
  by (subst makedirs.simps) (auto simp: needs_parents_def)

lemma makedirs_parents:
  assumes "needs_parents h fs name"
    and "makedirs h fs (fst (makedirs_split h name)) = (fs1, r1)"
  shows "makedirs h fs name =
     (if r1 \<noteq> None \<and> r1 \<noteq> Some FileExistsError then (fs1, r1)
      else if snd (makedirs_split h name) = ''.'' then (fs1, None)
      else mkdir_exist_ok h fs1 name)"
  using assms by (subst makedirs.simps) (auto simp: needs_parents_def split: option.splits)

lemma makedirs_induct [consumes 0, case_names leaf parents]:
  assumes "\<And>h fs name. \<not> needs_parents h fs name \<Longrightarrow> P h fs name"
    and "\<And>h fs name. needs_parents h fs name \<Longrightarrow> P h fs (fst (makedirs_split h name)) \<Longrightarrow> P h fs name"
  shows "P h fs name"
proof (induction h fs name rule: makedirs.induct)
  case (1 h fs name)
  show ?case
  proof (cases "needs_parents h fs name")
    case True
    then show ?thesis using "1.IH" assms(2) by (simp add: needs_parents_def)
  next
    case False
    then show ?thesis by (rule assms(1))
  qed
qed

lemma mkdir_frame:
  "mkdir h fs p = (fs', r) \<Longrightarrow> dirs fs \<subseteq> dirs fs' \<and> files fs' = files fs \<and> refused fs' = refused fs"
  by (auto simp: mkdir_def Let_def split: if_splits)

lemma mkdir_error_unchanged: "mkdir h fs p = (fs', Some e) \<Longrightarrow> fs' = fs"
  by (auto simp: mkdir_def Let_def split: if_splits)

lemma mkdir_exist_ok_frame:
  "mkdir_exist_ok h fs p = (fs', r) \<Longrightarrow> dirs fs \<subseteq> dirs fs' \<and> files fs' = files fs \<and> refused fs' = refused fs"
  by (cases "mkdir h fs p") (auto simp: mkdir_exist_ok_def dest!: mkdir_frame split: option.splits if_splits)

lemma mkdir_exist_ok_error_unchanged: "mkdir_exist_ok h fs p = (fs', Some e) \<Longrightarrow> fs' = fs"
  by (cases "mkdir h fs p") (auto simp: mkdir_exist_ok_def dest: mkdir_error_unchanged split: option.splits if_splits)

lemma makedirs_frame:
  "makedirs h fs name = (fs', r) \<Longrightarrow> dirs fs \<subseteq> dirs fs' \<and> files fs' = files fs \<and> refused fs' = refused fs"
proof (induction h fs name arbitrary: fs' r rule: makedirs_induct)
  case (leaf h fs name)
  then show ?case using mkdir_exist_ok_frame by (simp add: makedirs_leaf)
next
  case (parents h fs name)
  obtain fs1 r1 where inner: "makedirs h fs (fst (makedirs_split h name)) = (fs1, r1)"
    by (cases "makedirs h fs (fst (makedirs_split h name))")
  have f1: "dirs fs \<subseteq> dirs fs1 \<and> files fs1 = files fs \<and> refused fs1 = refused fs"
    using parents.IH [OF inner] .
  have "makedirs h fs name = (fs1, r1) \<or> makedirs h fs name = (fs1, None)
      \<or> makedirs h fs name = mkdir_exist_ok h fs1 name"
    using makedirs_parents [OF parents.hyps inner] by presburger
  then show ?case
    using f1 parents.prems mkdir_exist_ok_frame [of h fs1 name fs' r] by (elim disjE) auto
qed

lemma posix_host_sel [simp]:
  "os_name (posix_host c e) = ''posix''" "environ (posix_host c e) = e" "getcwd (posix_host c e) = c"
  by (simp_all add: posix_host_def)

lemma nt_host_sel [simp]:
  "os_name (nt_host c e) = ''nt''" "environ (nt_host c e) = e" "getcwd (nt_host c e) = c"
  by (simp_all add: nt_host_def)

lemma resolve_first_ok:
  "makedirs h fs (path_dirname h (log_path h)) = (fs1, None) \<Longrightarrow> resolve h fs = (fs1, Inr (log_path h))"
  by (simp add: resolve_def)

lemma resolve_first_error_tmp:
  "makedirs h fs (path_dirname h (log_path h)) = (fs1, Some e) \<Longrightarrow> startswith (log_path h) ''/tmp''
   \<Longrightarrow> resolve h fs = (fs1, Inl e)"
  by (simp add: resolve_def)

lemma resolve_retry:
  "makedirs h fs (path_dirname h (log_path h)) = (fs1, Some e) \<Longrightarrow> \<not> startswith (log_path h) ''/tmp''
   \<Longrightarrow> makedirs h fs1 (path_dirname h (fallback_log_path h)) = (fs2, r)
   \<Longrightarrow> resolve h fs = (fs2, case r of None \<Rightarrow> Inr (fallback_log_path h) | Some e2 \<Rightarrow> Inl e2)"
  by (simp add: resolve_def split: option.splits)

lemma makedirs_tmp_forbidden:
  "makedirs (posix_host ''/'' [''PESAPAL_LOG_PATH'' \<mapsto> ''/tmp/forbidden/pesapal.log''])
     (mkfs [['''', ''tmp'']] [] [['''', ''tmp'', ''forbidden'']]) ''/tmp/forbidden''
   = (mkfs [['''', ''tmp'']] [] [['''', ''tmp'', ''forbidden'']], Some PermissionError)"
  by (simp add: path_defs fs_defs fixture_defs)

lemma log_path_tmp_forbidden:
  "log_path (posix_host ''/'' [''PESAPAL_LOG_PATH'' \<mapsto> ''/tmp/forbidden/pesapal.log'']) = ''/tmp/forbidden/pesapal.log''"
  by (simp add: log_path_def getenv_def)

lemma dirname_tmp_forbidden:
  "path_dirname (posix_host c e) ''/tmp/forbidden/pesapal.log'' = ''/tmp/forbidden''"
  by (simp add: path_defs fixture_defs)

lemma makedirs_root_forbidden:
  "makedirs (posix_host ''/'' [''PESAPAL_LOG_PATH'' \<mapsto> ''/root/forbidden/pesapal.log''])
     (mkfs [] [] [['''', ''root''], ['''', ''tmp'']]) ''/root/forbidden''
   = (mkfs [] [] [['''', ''root''], ['''', ''tmp'']], Some PermissionError)"
  by (simp add: path_defs fs_defs fixture_defs)

lemma makedirs_tmp_refused:
  "makedirs (posix_host ''/'' [''PESAPAL_LOG_PATH'' \<mapsto> ''/root/forbidden/pesapal.log''])
     (mkfs [] [] [['''', ''root''], ['''', ''tmp'']]) ''/tmp/pesapal_logs''
   = (mkfs [] [] [['''', ''root''], ['''', ''tmp'']], Some PermissionError)"
  by (simp add: path_defs fs_defs fixture_defs)

lemma log_path_root_forbidden:
  "log_path (posix_host ''/'' [''PESAPAL_LOG_PATH'' \<mapsto> ''/root/forbidden/pesapal.log'']) = ''/root/forbidden/pesapal.log''"
  by (simp add: log_path_def getenv_def)

lemma dirname_root_forbidden:
  "path_dirname (posix_host c e) ''/root/forbidden/pesapal.log'' = ''/root/forbidden''"
  by (simp add: path_defs fixture_defs)

lemma posix_fallback_log_path: "os_name h \<noteq> ''nt'' \<Longrightarrow> fallback_log_path h = ''/tmp/pesapal_logs/pesapal.log''"
  by (simp add: fallback_log_path_def path_join_def is_nt_def startswith_def)

lemma posix_dirname_fallback: "os_name h \<noteq> ''nt'' \<Longrightarrow> path_dirname h ''/tmp/pesapal_logs/pesapal.log'' = ''/tmp/pesapal_logs''"
  by (simp add: path_defs)

lemma makedirs_tmpdata:
  "makedirs (posix_host ''/'' [''PESAPAL_LOG_PATH'' \<mapsto> ''/tmpdata/pesapal.log''])
     (mkfs [['''', ''tmp'']] [] [['''', ''tmpdata'']]) ''/tmpdata''
   = (mkfs [['''', ''tmp'']] [] [['''', ''tmpdata'']], Some PermissionError)"
  by (simp add: path_defs fs_defs fixture_defs)

lemma log_path_tmpdata:
  "log_path (posix_host ''/'' [''PESAPAL_LOG_PATH'' \<mapsto> ''/tmpdata/pesapal.log'']) = ''/tmpdata/pesapal.log''"
  by (simp add: log_path_def getenv_def)

lemma dirname_tmpdata: "path_dirname (posix_host c e) ''/tmpdata/pesapal.log'' = ''/tmpdata''"
  by (simp add: path_defs fixture_defs)

lemma locate_tmpdata: "locate (posix_host ''/'' e) ''/tmpdata'' = ['''', ''tmpdata'']"
  by (simp add: path_defs fs_defs fixture_defs)

lemma host_cong:
  assumes "os_name h1 = os_name h2" "getcwd h1 = getcwd h2"
  shows "is_nt h1 = is_nt h2" "path_split h1 = path_split h2" "path_dirname h1 = path_dirname h2"
    "path_join h1 = path_join h2" "locate h1 = locate h2" "last_name h1 = last_name h2"
    "makedirs_split h1 = makedirs_split h2"
proof -
  show nt: "is_nt h1 = is_nt h2" using assms by (simp add: is_nt_def)
  show ps: "path_split h1 = path_split h2" by (simp add: fun_eq_iff path_split_def nt)
  show "path_dirname h1 = path_dirname h2" by (simp add: fun_eq_iff path_dirname_def nt)
  show "path_join h1 = path_join h2" by (simp add: fun_eq_iff path_join_def nt)
  have sp: "path_seps h1 = path_seps h2" by (simp add: path_seps_def nt)
  have sd: "splitdrive h1 = splitdrive h2" by (simp add: fun_eq_iff splitdrive_def nt)
  show "locate h1 = locate h2" unfolding fun_eq_iff locate_def sp sd assms(2) by simp
  show "last_name h1 = last_name h2" by (simp add: fun_eq_iff last_name_def sp)
  show "makedirs_split h1 = makedirs_split h2" by (simp add: fun_eq_iff makedirs_split_def ps split: prod.splits)
qed

lemma host_cong_fs:
  assumes "os_name h1 = os_name h2" "getcwd h1 = getcwd h2"
  shows "path_exists h1 = path_exists h2" "path_isdir h1 = path_isdir h2" "mkdir h1 = mkdir h2"
    "mkdir_exist_ok h1 = mkdir_exist_ok h2" "needs_parents h1 = needs_parents h2"
proof -
  note c = host_cong [OF assms]
  show "path_exists h1 = path_exists h2" by (simp add: fun_eq_iff path_exists_def c)
  show pi: "path_isdir h1 = path_isdir h2" by (simp add: fun_eq_iff path_isdir_def c)
  show mk: "mkdir h1 = mkdir h2" by (simp add: fun_eq_iff mkdir_def Let_def c)
  show "mkdir_exist_ok h1 = mkdir_exist_ok h2" by (simp add: fun_eq_iff mkdir_exist_ok_def pi mk split: prod.splits option.splits)
  show "needs_parents h1 = needs_parents h2"
    by (simp add: fun_eq_iff needs_parents_def c path_exists_def)
qed

lemma makedirs_host_cong:
  assumes "os_name h1 = os_name h2" "getcwd h1 = getcwd h2"
  shows "makedirs h1 fs name = makedirs h2 fs name"
  using assms
proof (induction h1 fs name rule: makedirs_induct)
  case (leaf h fs name)
  then show ?case
    using host_cong_fs [OF leaf.prems] by (simp add: makedirs_leaf)
next
  case (parents h fs name)
  note c = host_cong [OF parents.prems] host_cong_fs [OF parents.prems]
  obtain fs1 r1 where inner: "makedirs h fs (fst (makedirs_split h name)) = (fs1, r1)"
    by (cases "makedirs h fs (fst (makedirs_split h name))")
  have inner2: "makedirs h2 fs (fst (makedirs_split h2 name)) = (fs1, r1)"
    using parents.IH [OF parents.prems] inner c by simp
  have np2: "needs_parents h2 fs name" using parents.hyps c by simp
  show ?case
    using makedirs_parents [OF parents.hyps inner] makedirs_parents [OF np2 inner2] c by simp
qed

lemma nt_temp_log_path:
  "os_name h = ''nt'' \<Longrightarrow> environ h ''PESAPAL_LOG_PATH'' = None \<Longrightarrow> environ h ''TEMP'' = Some temp_dir
   \<Longrightarrow> log_path h = temp_log_path"
  by (simp add: path_defs script_defs temp_dir_def temp_log_path_def)

lemma win_host_sel [simp]:
  "os_name win_host = ''nt''" "environ win_host = [''TEMP'' \<mapsto> temp_dir]"
  "getcwd win_host = ''C:'' @ [bsl] @ ''app''"
  by (simp_all add: win_host_def)

lemma nt_dirname_temp_log_path: "nt_dirname temp_log_path = temp_logs_dir"
  by (simp add: path_defs temp_dir_def temp_log_path_def temp_logs_dir_def)

lemma nt_split_temp_logs: "nt_split temp_logs_dir = (temp_dir, ''pesapal_logs'')"
  by (simp add: path_defs temp_dir_def temp_logs_dir_def)

lemma locate_temp_dir: "locate win_host temp_dir = temp_loc"
  by (simp add: path_defs fs_defs temp_dir_def temp_loc_def)

lemma locate_temp_logs: "locate win_host temp_logs_dir = temp_loc @ [''pesapal_logs'']"
  by (simp add: path_defs fs_defs temp_dir_def temp_loc_def temp_logs_dir_def)

lemma last_name_temp_logs: "last_name win_host temp_logs_dir = ''pesapal_logs''"
  by (simp add: path_defs fs_defs temp_dir_def temp_logs_dir_def)

lemma temp_dir_nonempty: "temp_dir \<noteq> []"
  by (simp add: temp_dir_def)

lemma temp_logs_nonempty: "temp_logs_dir \<noteq> []"
  by (simp add: temp_logs_dir_def)

lemma makedirs_temp_logs_ok:
  "makedirs win_host (mkfs [butlast temp_loc, temp_loc] [] []) temp_logs_dir
   = (mkfs [temp_loc @ [''pesapal_logs''], butlast temp_loc, temp_loc] [] [], None)"
proof -
  have np: "\<not> needs_parents win_host (mkfs [butlast temp_loc, temp_loc] [] []) temp_logs_dir"
    by (simp add: needs_parents_def makedirs_split_def path_split_def is_nt_def nt_split_temp_logs
        path_exists_def locate_temp_dir is_dir_at_def mkfs_def temp_dir_nonempty)
  show ?thesis
    unfolding makedirs_leaf [OF np]
    by (simp add: mkdir_exist_ok_def mkdir_def locate_temp_logs last_name_temp_logs mkfs_def
        is_dir_at_def temp_loc_def temp_logs_nonempty)
qed

lemma makedirs_temp_logs_refused:
  "makedirs win_host (mkfs [[''C:''], butlast temp_loc, temp_loc] [] [temp_loc @ [''pesapal_logs'']]) temp_logs_dir
   = (mkfs [[''C:''], butlast temp_loc, temp_loc] [] [temp_loc @ [''pesapal_logs'']], Some PermissionError)"
proof -
  have np: "\<not> needs_parents win_host (mkfs [[''C:''], butlast temp_loc, temp_loc] [] [temp_loc @ [''pesapal_logs'']]) temp_logs_dir"
    by (simp add: needs_parents_def makedirs_split_def path_split_def is_nt_def nt_split_temp_logs
        path_exists_def locate_temp_dir is_dir_at_def mkfs_def temp_dir_nonempty)
  show ?thesis
    unfolding makedirs_leaf [OF np]
    by (simp add: mkdir_exist_ok_def mkdir_def path_isdir_def locate_temp_logs last_name_temp_logs mkfs_def
        is_dir_at_def temp_loc_def temp_logs_nonempty)
qed

lemma nt_fallback_log_path: "os_name h = ''nt'' \<Longrightarrow> fallback_log_path h = nt_fallback"
  by (simp add: path_defs fallback_log_path_def nt_fallback_def)

lemma makedirs_nt_fallback:
  "makedirs win_host (mkfs [[''C:''], butlast temp_loc, temp_loc] [] [temp_loc @ [''pesapal_logs'']])
      (nt_dirname nt_fallback)
   = (mkfs [[''C:'', ''tmp'', ''pesapal_logs''], [''C:'', ''tmp''], [''C:''], butlast temp_loc, temp_loc] []
        [temp_loc @ [''pesapal_logs'']], None)"
  by (simp add: path_defs fs_defs mkfs_def temp_loc_def nt_fallback_def)

lemma rstrip_decomp: "\<exists>r. s = rstrip seps s @ r \<and> set r \<subseteq> set seps"
proof -
  let ?P = "\<lambda>c. c \<in> set seps"
  have "s = rev (dropWhile ?P (rev s)) @ rev (takeWhile ?P (rev s))"
    by (metis rev_append rev_rev_ident takeWhile_dropWhile_id)
  then have "s = rstrip seps s @ rev (takeWhile ?P (rev s))"
    by (simp only: rstrip_def)
  moreover have "set (rev (takeWhile ?P (rev s))) \<subseteq> set seps"
    by (auto dest: set_takeWhileD)
  ultimately show ?thesis by blast
qed

lemma rstrip_Nil_iff: "rstrip seps s = [] \<longleftrightarrow> set s \<subseteq> set seps"
  by (auto simp: rstrip_def dropWhile_eq_Nil_conv)

lemma rstrip_last: "rstrip seps s \<noteq> [] \<Longrightarrow> last (rstrip seps s) \<notin> set seps"
  using hd_dropWhile [of "\<lambda>c. c \<in> set seps" "rev s"]
  by (simp add: rstrip_def last_rev)

lemma rstrip_append_seps: "set r \<subseteq> set seps \<Longrightarrow> rstrip seps (s @ r) = rstrip seps s"
  using dropWhile_append2 [of "rev r" "\<lambda>c. c \<in> set seps" "rev s"]
  by (auto simp: rstrip_def)

lemma rstrip_id: "s \<noteq> [] \<Longrightarrow> last s \<notin> set seps \<Longrightarrow> rstrip seps s = s"
  by (cases s rule: rev_cases) (simp_all add: rstrip_def)

lemma gstrip_decomp:
  "\<exists>r. s = gstrip seps s @ r \<and> set r \<subseteq> set seps \<and> (r = [] \<longrightarrow> set s \<subseteq> set seps \<or> rstrip seps s = s)"
proof (cases "rstrip seps s = []")
  case True
  then show ?thesis by (auto simp: gstrip_def rstrip_Nil_iff)
next
  case False
  obtain r where "s = rstrip seps s @ r" "set r \<subseteq> set seps" using rstrip_decomp by blast
  then show ?thesis using False by (auto simp: gstrip_def intro!: exI [of _ r])
qed

lemma gstrip_Nil_iff: "gstrip seps s = [] \<longleftrightarrow> s = []"
  by (auto simp: gstrip_def rstrip_def)

lemma gstrip_prefix: "prefix (gstrip seps s) s"
  using gstrip_decomp [of s seps] by (metis prefixI)

lemma cut_last_tail_free: "set (snd (cut_last seps p)) \<inter> set seps = {}"
  by (auto simp: cut_last_def dest: set_takeWhileD)

lemma cut_last_head_last: "fst (cut_last seps p) \<noteq> [] \<Longrightarrow> last (fst (cut_last seps p)) \<in> set seps"
  using hd_dropWhile [of "\<lambda>c. c \<notin> set seps" "rev p"]
  by (simp add: cut_last_def last_rev)

lemma cut_last_append_free:
  assumes "set t \<inter> set seps = {}"
  shows "snd (cut_last seps (x @ t)) = snd (cut_last seps x) @ t"
proof -
  have "\<And>c. c \<in> set (rev t) \<Longrightarrow> c \<notin> set seps" using assms by auto
  then have "takeWhile (\<lambda>c. c \<notin> set seps) (rev t @ rev x)
      = rev t @ takeWhile (\<lambda>c. c \<notin> set seps) (rev x)"
    by (rule takeWhile_append2)
  then show ?thesis by (simp add: cut_last_def)
qed

lemma split_on_nonempty: "split_on seps s \<noteq> []"
  by (induction s) (auto split: list.splits)

lemma split_on_append_sep:
  "c \<in> set seps \<Longrightarrow> split_on seps (a @ c # b) = split_on seps a @ split_on seps b"
proof (induction a)
  case Nil
  then show ?case by simp
next
  case (Cons x a)
  then show ?case using split_on_nonempty [of seps a] by (cases "split_on seps a") auto
qed

lemma split_on_free: "set t \<inter> set seps = {} \<Longrightarrow> split_on seps t = [t]"
  by (induction t) auto

lemma names_append_sep:
  "c \<in> set seps \<Longrightarrow> names seps (a @ c # b) = names seps a @ names seps b"
  by (simp add: names_def split_on_append_sep)

lemma names_Nil [simp]: "names seps [] = []"
  by (simp add: names_def)

lemma names_seps_only: "set s \<subseteq> set seps \<Longrightarrow> names seps s = []"
proof (induction s)
  case Nil
  then show ?case by simp
next
  case (Cons c s)
  then show ?case using names_append_sep [of c seps "[]" s] by simp
qed

lemma names_append_seps: "set s \<subseteq> set seps \<Longrightarrow> names seps (x @ s) = names seps x"
proof (cases s)
  case Nil
  then show ?thesis by simp
next
  case (Cons c s')
  assume "set s \<subseteq> set seps"
  then show ?thesis using Cons names_append_sep [of c seps x s'] names_seps_only [of s' seps] by simp
qed

lemma names_free:
  "set t \<inter> set seps = {} \<Longrightarrow> names seps t = (if t = [] \<or> t = ''.'' then [] else [t])"
  by (simp add: names_def split_on_free)

lemma names_append_free:
  assumes "x = [] \<or> last x \<in> set seps"
  shows "names seps (x @ t) = names seps x @ names seps t"
proof (cases x rule: rev_cases)
  case Nil
  then show ?thesis by simp
next
  case (snoc x' c)
  then have c: "c \<in> set seps" using assms by simp
  show ?thesis
    using names_append_sep [OF c, of x' t] names_append_sep [OF c, of x' "[]"] snoc by simp
qed

lemma names_decomp:
  assumes "set s \<subseteq> set seps" and "s \<noteq> [] \<or> x = [] \<or> last x \<in> set seps"
  shows "names seps (x @ s @ t) = names seps x @ names seps t"
proof -
  have "(x @ s) = [] \<or> last (x @ s) \<in> set seps"
    using assms by (cases s rule: rev_cases) auto
  then have "names seps ((x @ s) @ t) = names seps (x @ s) @ names seps t"
    by (rule names_append_free)
  then show ?thesis using names_append_seps [OF assms(1), of x] by simp
qed

lemma find_from_SomeI:
  assumes "start \<le> i" "i < length s" "s ! i = c" "\<And>j. start \<le> j \<Longrightarrow> j < i \<Longrightarrow> s ! j \<noteq> c"
  shows "find_from c s start = Some i"
proof -
  let ?xs = "drop start s"
  let ?n = "i - start"
  have n: "?n < length ?xs" using assms(1,2) by simp
  have "takeWhile (\<lambda>x. x \<noteq> c) ?xs = take ?n ?xs"
  proof (rule takeWhile_eq_take_P_nth)
    fix k assume "k < ?n" "k < length ?xs"
    then show "?xs ! k \<noteq> c" using assms(1,2) assms(4) [of "start + k"] by simp
  next
    assume "?n < length ?xs"
    then show "\<not> ?xs ! ?n \<noteq> c" using assms(1,2,3) by simp
  qed
  then have "dropWhile (\<lambda>x. x \<noteq> c) ?xs = drop ?n ?xs"
    by (metis takeWhile_dropWhile_id append_eq_conv_conj append_take_drop_id length_take)
  then show ?thesis using n assms(1,2) by (simp add: find_from_def Let_def)
qed

lemma find_from_NoneI:
  assumes "\<And>j. start \<le> j \<Longrightarrow> j < length s \<Longrightarrow> s ! j \<noteq> c"
  shows "find_from c s start = None"
proof -
  have "\<forall>x \<in> set (drop start s). x \<noteq> c"
  proof
    fix x assume "x \<in> set (drop start s)"
    then obtain k where "k < length (drop start s)" "drop start s ! k = x"
      by (auto simp: in_set_conv_nth)
    then show "x \<noteq> c" using assms [of "start + k"] by auto
  qed
  then show ?thesis by (simp add: find_from_def dropWhile_eq_Nil_conv)
qed

lemma find_from_SomeD:
  assumes "find_from c s start = Some i"
  shows "start \<le> i \<and> i < length s \<and> s ! i = c \<and> (\<forall>j. start \<le> j \<and> j < i \<longrightarrow> s ! j \<noteq> c)"
proof -
  let ?xs = "drop start s"
  let ?P = "\<lambda>x. x \<noteq> c"
  let ?k = "length (takeWhile ?P ?xs)"
  have r: "dropWhile ?P ?xs \<noteq> []" and i: "i = length s - length (dropWhile ?P ?xs)"
    using assms by (auto simp: find_from_def Let_def split: if_splits)
  have dw: "dropWhile ?P ?xs = drop ?k ?xs" by (simp add: dropWhile_eq_drop)
  have k: "?k < length ?xs" using r dw by simp
  then have st: "start < length s" by simp
  have i': "i = start + ?k" using i dw k by simp
  have "\<not> ?P (?xs ! ?k)" using k by (rule nth_length_takeWhile)
  then have c: "s ! i = c" using i' st by simp
  have "s ! j \<noteq> c" if "start \<le> j" "j < i" for j
  proof -
    have "j - start < ?k" using that i' by simp
    then have "takeWhile ?P ?xs ! (j - start) \<in> set (takeWhile ?P ?xs)" by simp
    then have "?P (takeWhile ?P ?xs ! (j - start))" by (rule set_takeWhileD [THEN conjunct2])
    moreover have "takeWhile ?P ?xs ! (j - start) = ?xs ! (j - start)"
      using \<open>j - start < ?k\<close> by (rule takeWhile_nth)
    ultimately show ?thesis using that st i' k by simp
  qed
  then show ?thesis using i' k c by simp
qed

lemma nt_norm_simps [simp]:
  "length (nt_norm p) = length p" "nt_norm (take n p) = take n (nt_norm p)"
  "nt_norm (a @ b) = nt_norm a @ nt_norm b"
  by (simp_all add: nt_norm_def take_map)

lemma nt_splitdrive_unfold:
  "nt_splitdrive p =
     (if 2 \<le> length p then
        (if take 2 (nt_norm p) = [bsl, bsl] then
           (case find_from bsl (nt_norm p)
                   (if map upper_char (take 8 (nt_norm p)) = unc_prefix then 8 else 2) of
              None \<Rightarrow> (p, [])
            | Some index \<Rightarrow>
                (case find_from bsl (nt_norm p) (index + 1) of
                   None \<Rightarrow> (p, [])
                 | Some index2 \<Rightarrow> (take index2 p, drop index2 p)))
         else if take 1 (drop 1 (nt_norm p)) = '':'' then (take 2 p, drop 2 p)
         else ([], p))
      else ([], p))"
  unfolding nt_splitdrive_def nt_norm_def Let_def by (rule refl)

lemma nt_splitdrive_short: "length p < 2 \<Longrightarrow> nt_splitdrive p = ([], p)"
  by (simp add: nt_splitdrive_def)

lemma nt_splitdrive_unc_prefix:
  assumes len: "2 \<le> length p" and unc: "take 2 (nt_norm p) = [bsl, bsl]"
    and start: "start = (if map upper_char (take 8 (nt_norm p)) = unc_prefix then 8 else 2)"
    and i1: "find_from bsl (nt_norm p) start = Some index"
    and i2: "find_from bsl (nt_norm p) (index + 1) = Some index2"
    and x: "prefix x (drop index2 p)"
  shows "nt_splitdrive (take index2 p @ x) = (take index2 p, x)"
proof -
  let ?np = "nt_norm p"
  let ?n = "index2 + length x"
  let ?p' = "take index2 p @ x"
  note d1 = find_from_SomeD [OF i1]
  note d2 = find_from_SomeD [OF i2]
  have st2: "2 \<le> start" using start by simp
  have idx: "start \<le> index" "index < index2" "index2 < length p" using d1 d2 by simp_all
  have xt: "x = take (length x) (drop index2 p)"
    using x by (metis append_eq_conv_conj prefix_def)
  have xl: "length x \<le> length p - index2"
    using x by (metis length_drop prefix_length_le)
  have p': "?p' = take ?n p"
    using xt by (metis take_add)
  have np': "nt_norm ?p' = take ?n ?np" by (simp only: p' nt_norm_simps)
  have n: "?n \<le> length p" using xl idx by simp
  have lp': "length ?p' = ?n" using idx by simp
  have n3: "3 \<le> ?n" using st2 idx by simp
  have t2: "take 2 (take ?n ?np) = [bsl, bsl]" using unc n3 by (simp add: min_def)
  have start': "(if map upper_char (take 8 (take ?n ?np)) = unc_prefix then 8 else 2) = start"
  proof (cases "8 \<le> ?n")
    case True
    then show ?thesis using start by (simp add: min_def)
  next
    case False
    then have "length (map upper_char (take 8 (take ?n ?np))) \<noteq> length unc_prefix"
      using n by (simp add: unc_prefix_def)
    then have ne: "map upper_char (take 8 (take ?n ?np)) \<noteq> unc_prefix" by metis
    have "start \<noteq> 8" using False idx by simp
    then show ?thesis using start ne by (simp split: if_splits)
  qed
  have f1: "find_from bsl (take ?n ?np) start = Some index"
  proof (rule find_from_SomeI)
    show "start \<le> index" by (rule idx)
    show "index < length (take ?n ?np)" using idx n by simp
    show "take ?n ?np ! index = bsl" using d1 idx by simp
    show "take ?n ?np ! j \<noteq> bsl" if "start \<le> j" "j < index" for j
      using d1 that idx by simp
  qed
  have f2: "find_from bsl (take ?n ?np) (index + 1) = (if x = [] then None else Some index2)"
  proof (cases "x = []")
    case True
    have "find_from bsl (take ?n ?np) (index + 1) = None"
    proof (rule find_from_NoneI)
      fix j assume "index + 1 \<le> j" "j < length (take ?n ?np)"
      then show "take ?n ?np ! j \<noteq> bsl" using d2 True by simp
    qed
    then show ?thesis using True by simp
  next
    case False
    have "find_from bsl (take ?n ?np) (index + 1) = Some index2"
    proof (rule find_from_SomeI)
      show "index + 1 \<le> index2" using idx by simp
      show "index2 < length (take ?n ?np)" using False n by simp
      show "take ?n ?np ! index2 = bsl" using d2 False by simp
      show "take ?n ?np ! j \<noteq> bsl" if "index + 1 \<le> j" "j < index2" for j
        using d2 that by simp
    qed
    then show ?thesis using False by simp
  qed
  have l2: "2 \<le> length ?p'" using lp' n3 by linarith
  have "nt_splitdrive ?p' = (case (if x = [] then None else Some index2) of
      None \<Rightarrow> (?p', []) | Some index2 \<Rightarrow> (take index2 ?p', drop index2 ?p'))"
    by (subst nt_splitdrive_unfold) (simp only: l2 np' t2 start' f1 f2 option.case if_True simp_thms)
  then show ?thesis using idx by simp
qed

lemma nt_splitdrive_prefix:
  assumes sd: "nt_splitdrive p = (d, q)" and x: "prefix x q"
  shows "nt_splitdrive (d @ x) = (d, x)"
proof (cases "2 \<le> length p")
  case False
  then have "d = []" "q = p" using sd by (simp_all add: nt_splitdrive_def)
  then have "length x < 2" using x False by (metis prefix_length_le not_le le_less_trans)
  then show ?thesis using \<open>d = []\<close> by (simp add: nt_splitdrive_short)
next
  case len: True
  let ?np = "nt_norm p"
  show ?thesis
  proof (cases "take 2 ?np = [bsl, bsl]")
    case unc: True
    define start :: nat where "start = (if map upper_char (take 8 ?np) = unc_prefix then 8 else 2)"
    have sd': "(d, q) = (case find_from bsl ?np start of
              None \<Rightarrow> (p, [])
            | Some index \<Rightarrow>
                (case find_from bsl ?np (index + 1) of
                   None \<Rightarrow> (p, [])
                 | Some index2 \<Rightarrow> (take index2 p, drop index2 p)))"
      using sd len unc by (subst (asm) nt_splitdrive_unfold) (simp add: start_def)
    show ?thesis
    proof (cases "find_from bsl ?np start")
      case None
      then have "d = p" "q = []" using sd' by simp_all
      then show ?thesis using x sd by simp
    next
      case (Some index)
      show ?thesis
      proof (cases "find_from bsl ?np (index + 1)")
        case None
        then have "d = p" "q = []" using sd' Some by simp_all
        then show ?thesis using x sd by simp
      next
        case i2: (Some index2)
        then have dq: "d = take index2 p" "q = drop index2 p" using sd' Some by simp_all
        show ?thesis
          unfolding dq(1)
          using nt_splitdrive_unc_prefix [OF len unc start_def Some i2] x dq(2) by simp
      qed
    qed
  next
    case nunc: False
    have xp: "x = take (length x) q" using x by (metis append_eq_conv_conj prefix_def)
    show ?thesis
    proof (cases "take 1 (drop 1 ?np) = '':''")
      case True
      then have dq: "d = take 2 p" "q = drop 2 p"
        using sd len nunc by (simp_all add: nt_splitdrive_unfold)
      have l: "2 \<le> length (d @ x)" using dq len by simp
      have t2: "take 2 (nt_norm (d @ x)) = take 2 ?np" using len by (simp add: dq(1))
      have "take 1 (drop 1 (nt_norm (d @ x))) = take 1 (drop 1 ?np)"
        using len by (simp add: dq(1) drop_take)
      then have t1: "take 1 (drop 1 (nt_norm (d @ x))) = '':''" using True by simp
      have "nt_splitdrive (d @ x) = (take 2 (d @ x), drop 2 (d @ x))"
        by (subst nt_splitdrive_unfold) (simp only: l t2 t1 nunc if_True if_False simp_thms)
      then show ?thesis using dq len by simp
    next
      case False
      then have dq: "d = []" "q = p"
        using sd len nunc by (simp_all add: nt_splitdrive_unfold)
      show ?thesis
      proof (cases "2 \<le> length x")
        case l: True
        have n: "nt_norm x = take (length x) ?np" using xp dq by (metis nt_norm_simps(2))
        have t2: "take 2 (nt_norm x) = take 2 ?np" using l by (subst n) (simp add: min_def)
        have t1: "take 1 (drop 1 (nt_norm x)) = take 1 (drop 1 ?np)"
          using l by (subst n) (simp add: drop_take min_def)
        have "nt_splitdrive x = ([], x)"
          by (subst nt_splitdrive_unfold) (simp only: l t2 t1 nunc False if_True if_False simp_thms)
        then show ?thesis using dq by simp
      next
        case False
        then show ?thesis using dq by (simp add: nt_splitdrive_short)
      qed
    qed
  qed
qed

lemma splitdrive_append: "splitdrive h p = (d, q) \<Longrightarrow> d @ q = p"
  using nt_splitdrive_append [of p] by (auto simp: splitdrive_def split: if_splits)

lemma splitdrive_prefix:
  "splitdrive h p = (d, q) \<Longrightarrow> prefix x q \<Longrightarrow> splitdrive h (d @ x) = (d, x)"
  using nt_splitdrive_prefix [of p d q x] by (auto simp: splitdrive_def split: if_splits)

lemma splitdrive_Nil [simp]: "splitdrive h [] = ([], [])"
  by (simp add: splitdrive_def nt_splitdrive_def)

lemma posix_strip_eq:
  "(if s \<noteq> [] \<and> s \<noteq> replicate (length s) CHR ''/'' then rstrip ''/'' s else s) = gstrip ''/'' s"
proof -
  have "s = replicate (length s) CHR ''/'' \<longleftrightarrow> set s \<subseteq> {CHR ''/''}"
  proof
    assume "s = replicate (length s) CHR ''/''"
    then have "set s = set (replicate (length s) CHR ''/'')" by simp
    then show "set s \<subseteq> {CHR ''/''}" by (simp only: set_replicate_conv_if) (simp split: if_splits)
  next
    assume "set s \<subseteq> {CHR ''/''}"
    then have "\<forall>y \<in> set s. y = CHR ''/''" by auto
    then show "s = replicate (length s) CHR ''/''" by (simp add: replicate_length_same)
  qed
  then show ?thesis by (auto simp: gstrip_def rstrip_Nil_iff)
qed

lemma path_split_eq:
  "path_split h p =
     (case splitdrive h p of (d, q) \<Rightarrow>
        case cut_last (path_seps h) q of (h0, t0) \<Rightarrow> (d @ gstrip (path_seps h) h0, t0))"
proof (cases "is_nt h")
  case True
  then show ?thesis
    by (simp add: path_split_def nt_split_def splitdrive_def path_seps_def gstrip_def
        split: prod.splits)
next
  case False
  then show ?thesis
    by (simp add: path_split_def posix_split_def splitdrive_def path_seps_def posix_strip_eq
        split: prod.splits)
qed

lemma path_split_spec:
  assumes "path_split h p = (head, tail)"
  shows "\<exists>d h0 r. split_parts h p head tail d h0 r"
proof -
  let ?seps = "path_seps h"
  obtain d q where dq: "splitdrive h p = (d, q)" by (cases "splitdrive h p")
  obtain h0 t0 where ht: "cut_last ?seps q = (h0, t0)" by (cases "cut_last ?seps q")
  have head: "head = d @ gstrip ?seps h0" and tail: "tail = t0"
    using assms by (simp_all add: path_split_eq dq ht)
  have q: "q = h0 @ tail" using cut_last_append [of ?seps q] ht tail by simp
  have free: "set tail \<inter> set ?seps = {}" using cut_last_tail_free [of ?seps q] ht tail by simp
  have hl: "h0 = [] \<or> last h0 \<in> set ?seps" using cut_last_head_last [of ?seps q] ht by auto
  obtain r where r: "h0 = gstrip ?seps h0 @ r" "set r \<subseteq> set ?seps"
    "r = [] \<longrightarrow> set h0 \<subseteq> set ?seps \<or> rstrip ?seps h0 = h0"
    using gstrip_decomp [of h0 ?seps] by blast
  have r0: "r = [] \<longrightarrow> set h0 \<subseteq> set ?seps"
  proof
    assume "r = []"
    then consider "set h0 \<subseteq> set ?seps" | "rstrip ?seps h0 = h0" using r(3) by blast
    then show "set h0 \<subseteq> set ?seps"
    proof cases
      case 1 then show ?thesis .
    next
      case 2
      then have "h0 = []" using hl rstrip_last [of ?seps h0] by auto
      then show ?thesis by simp
    qed
  qed
  have "q = gstrip ?seps h0 @ (r @ tail)" using q r(1) by (metis append.assoc)
  then have "prefix (gstrip ?seps h0) q" by (rule prefixI)
  then have sd: "splitdrive h (d @ gstrip ?seps h0) = (d, gstrip ?seps h0)"
    by (rule splitdrive_prefix [OF dq])
  have p: "p = d @ h0 @ tail" using splitdrive_append [OF dq] q by simp
  have "split_parts h p head tail d h0 r"
    unfolding split_parts_def
    using dq q p head r(1,2) free r0 sd by (intro conjI) simp_all
  then show ?thesis by blast
qed

lemma names_tail:
  "set tail \<inter> set seps = {} \<Longrightarrow> names seps tail = (if tail = [] \<or> tail = ''.'' then [] else [tail])"
  by (rule names_free)

lemma locate_path_split:
  assumes "path_split h p = (head, tail)"
  shows "locate h p = locate h head @ names (path_seps h) tail"
proof -
  let ?seps = "path_seps h"
  obtain d h0 r where sp: "split_parts h p head tail d h0 r"
    using path_split_spec [OF assms] by blast
  have s: "splitdrive h p = (d, h0 @ tail)"
    "h0 = gstrip ?seps h0 @ r" "set r \<subseteq> set ?seps" "set tail \<inter> set ?seps = {}"
    "r = [] \<longrightarrow> set h0 \<subseteq> set ?seps" "splitdrive h head = (d, gstrip ?seps h0)"
    using sp unfolding split_parts_def by blast+
  let ?g = "gstrip ?seps h0"
  have q: "h0 @ tail = ?g @ r @ tail" using s(2) by (metis append.assoc)
  have cond: "r \<noteq> [] \<or> ?g = [] \<or> last ?g \<in> set ?seps"
  proof (cases "r = []")
    case True
    then have "set ?g \<subseteq> set ?seps" using s(2,5) by simp
    then show ?thesis by (cases ?g rule: rev_cases) auto
  next
    case False then show ?thesis by simp
  qed
  have nm: "names ?seps (h0 @ tail) = names ?seps ?g @ names ?seps tail"
    unfolding q using names_decomp [OF s(3) cond] .
  have rooted: "(h0 @ tail \<noteq> [] \<and> hd (h0 @ tail) \<in> set ?seps) = (?g \<noteq> [] \<and> hd ?g \<in> set ?seps)"
  proof (cases "?g = []")
    case True
    then have "h0 = []" by (simp add: gstrip_Nil_iff)
    then show ?thesis using True s(4) by (cases tail) auto
  next
    case False
    then show ?thesis unfolding q by simp
  qed
  obtain cd cq where c: "splitdrive h (getcwd h) = (cd, cq)" by (cases "splitdrive h (getcwd h)")
  define R where "R = (?g \<noteq> [] \<and> hd ?g \<in> set ?seps)"
  define F where "F = (\<lambda>ns. if R then (if d = [] then cd else d) # ns
      else if d = [] \<or> d = cd then cd # names ?seps cq @ ns else d # ns)"
  have lp: "locate h p = F (names ?seps (h0 @ tail))"
    unfolding locate_def s(1) c F_def R_def rooted [symmetric] by simp
  have lh: "locate h head = F (names ?seps ?g)"
    unfolding locate_def s(6) c F_def R_def by simp
  have "F (names ?seps ?g @ names ?seps tail) = F (names ?seps ?g) @ names ?seps tail"
    by (simp add: F_def)
  then show ?thesis by (simp only: lp lh nm)
qed

lemma path_split_tail_free:
  "path_split h p = (head, tail) \<Longrightarrow> set tail \<inter> set (path_seps h) = {}"
  using path_split_spec [of h p head tail] unfolding split_parts_def by blast

lemma makedirs_split_tail_free:
  "set (snd (makedirs_split h name)) \<inter> set (path_seps h) = {}"
proof -
  obtain h1 t1 where s1: "path_split h name = (h1, t1)" by (cases "path_split h name")
  obtain h2 t2 where s2: "path_split h h1 = (h2, t2)" by (cases "path_split h h1")
  show ?thesis
    using path_split_tail_free [OF s1] path_split_tail_free [OF s2]
    by (simp add: makedirs_split_def s1 s2)
qed

lemma locate_makedirs_split:
  "locate h name =
     locate h (fst (makedirs_split h name)) @ names (path_seps h) (snd (makedirs_split h name))"
proof -
  obtain h1 t1 where s1: "path_split h name = (h1, t1)" by (cases "path_split h name")
  obtain h2 t2 where s2: "path_split h h1 = (h2, t2)" by (cases "path_split h h1")
  show ?thesis
    using locate_path_split [OF s1] locate_path_split [OF s2]
    by (simp add: makedirs_split_def s1 s2)
qed

lemma locate_makedirs_split_name:
  assumes "snd (makedirs_split h name) \<noteq> []" "snd (makedirs_split h name) \<noteq> ''.''"
  shows "locate h name = locate h (fst (makedirs_split h name)) @ [snd (makedirs_split h name)]"
  using locate_makedirs_split [of h name] assms
  by (simp add: names_tail [OF makedirs_split_tail_free])

lemma locate_makedirs_split_dot:
  assumes "snd (makedirs_split h name) = ''.''"
  shows "locate h name = locate h (fst (makedirs_split h name))"
  using locate_makedirs_split [of h name] assms
  by (simp add: names_def)

lemma last_name_path_split:
  assumes "path_split h p = (head, tail)" "tail \<noteq> []"
  shows "\<exists>y. last_name h p = y @ tail"
proof -
  let ?seps = "path_seps h"
  obtain d h0 r where sp: "split_parts h p head tail d h0 r"
    using path_split_spec [OF assms(1)] by blast
  have p: "p = d @ h0 @ tail" and free: "set tail \<inter> set ?seps = {}"
    using sp unfolding split_parts_def by blast+
  have "last tail \<in> set tail" using assms(2) by simp
  then have "last tail \<notin> set ?seps" using free by blast
  then have "last p \<notin> set ?seps" "p \<noteq> []" using p assms(2) by simp_all
  then have "rstrip ?seps p = p" by (simp add: rstrip_id)
  then have "last_name h p = snd (cut_last ?seps ((d @ h0) @ tail))"
    by (simp add: last_name_def p)
  then show ?thesis using cut_last_append_free [OF free, of "d @ h0"] by auto
qed

lemma last_name_makedirs_split:
  assumes "snd (makedirs_split h name) \<noteq> []"
  shows "\<exists>y. last_name h name = y @ snd (makedirs_split h name)"
proof -
  let ?seps = "path_seps h"
  obtain h1 t1 where s1: "path_split h name = (h1, t1)" by (cases "path_split h name")
  show ?thesis
  proof (cases "t1 = []")
    case False
    then show ?thesis using last_name_path_split [OF s1] by (simp add: makedirs_split_def s1)
  next
    case True
    obtain h2 t2 where s2: "path_split h h1 = (h2, t2)" by (cases "path_split h h1")
    have t2: "t2 \<noteq> []" "snd (makedirs_split h name) = t2"
      using assms True by (simp_all add: makedirs_split_def s1 s2)
    obtain d h0 r where sp: "split_parts h name h1 t1 d h0 r"
      using path_split_spec [OF s1] by blast
    have e: "name = d @ h0 @ t1" "h1 = d @ gstrip ?seps h0"
      "h0 = gstrip ?seps h0 @ r" "set r \<subseteq> set ?seps"
      using sp unfolding split_parts_def by blast+
    have "name = d @ h0" using e(1) True by simp
    also have "\<dots> = d @ (gstrip ?seps h0 @ r)" using e(3) by simp
    finally have "name = h1 @ r" using e(2) by simp
    note this e(4)
    then have "rstrip ?seps name = rstrip ?seps h1" by (simp add: rstrip_append_seps)
    then have "last_name h name = last_name h h1" by (simp add: last_name_def)
    then show ?thesis using last_name_path_split [OF s2 t2(1)] t2(2) by simp
  qed
qed

lemma last_name_not_special:
  assumes "snd (makedirs_split h name) \<noteq> []" "snd (makedirs_split h name) \<noteq> ''.''"
  shows "last_name h name \<noteq> [] \<and> last_name h name \<noteq> ''.''"
proof -
  obtain y where "last_name h name = y @ snd (makedirs_split h name)"
    using last_name_makedirs_split [OF assms(1)] by blast
  then show ?thesis using assms by (cases y) (auto simp: append_eq_Cons_conv)
qed

lemma extends_refl [simp]: "extends fs fs"
  by (simp add: extends_def)

lemma extends_trans: "extends a b \<Longrightarrow> extends b c \<Longrightarrow> extends a c"
  by (auto simp: extends_def)

lemma makedirs_extends: "makedirs h fs name = (fs', r) \<Longrightarrow> extends fs fs'"
  using makedirs_frame [of h fs name fs' r] by (simp add: extends_def)

lemma mkdir_exist_ok_extends: "mkdir_exist_ok h fs name = (fs', r) \<Longrightarrow> extends fs fs'"
  using mkdir_exist_ok_frame [of h fs name fs' r] by (simp add: extends_def)

lemma is_dir_at_mono: "extends fs fs' \<Longrightarrow> is_dir_at fs loc \<Longrightarrow> is_dir_at fs' loc"
  by (auto simp: extends_def is_dir_at_def)

lemma path_isdir_mono: "extends fs fs' \<Longrightarrow> path_isdir h fs p \<Longrightarrow> path_isdir h fs' p"
  by (auto simp: path_isdir_def dest: is_dir_at_mono)

lemma path_exists_mono: "extends fs fs' \<Longrightarrow> path_exists h fs p \<Longrightarrow> path_exists h fs' p"
  using is_dir_at_mono [of fs fs' "locate h p"] by (auto simp: path_exists_def extends_def)

lemma path_isdir_exists: "path_isdir h fs p \<Longrightarrow> path_exists h fs p"
  by (simp add: path_isdir_def path_exists_def)

lemma mkdir_ok_isdir: "mkdir h fs p = (fs', None) \<Longrightarrow> path_isdir h fs' p"
  by (auto simp: mkdir_def Let_def path_isdir_def is_dir_at_def split: if_splits)

lemma mkdir_exist_ok_isdir: "mkdir_exist_ok h fs p = (fs', None) \<Longrightarrow> path_isdir h fs' p"
  by (cases "mkdir h fs p")
    (auto simp: mkdir_exist_ok_def dest: mkdir_ok_isdir split: option.splits if_splits)

lemma mkdir_isdir_fails: "path_isdir h fs p \<Longrightarrow> \<exists>e. mkdir h fs p = (fs, Some e)"
  by (auto simp: mkdir_def Let_def path_isdir_def)

lemma mkdir_exist_ok_on_dir: "path_isdir h fs p \<Longrightarrow> mkdir_exist_ok h fs p = (fs, None)"
  using mkdir_isdir_fails [of h fs p] by (auto simp: mkdir_exist_ok_def)

lemma mkdir_exist_ok_FileExists:
  assumes "mkdir_exist_ok h fs p = (fs', Some FileExistsError)"
  shows "p \<noteq> [] \<and> locate h p \<in> files fs"
proof -
  obtain fs1 r1 where m: "mkdir h fs p = (fs1, r1)" by (cases "mkdir h fs p")
  have r: "r1 = Some FileExistsError" "\<not> path_isdir h fs1 p"
    using assms m by (auto simp: mkdir_exist_ok_def split: option.splits if_splits)
  have "fs1 = fs" using m r(1) mkdir_error_unchanged by blast
  then show ?thesis
    using m r by (auto simp: mkdir_def Let_def path_isdir_def split: if_splits)
qed

lemma makedirs_split_Nil [simp]: "makedirs_split h [] = ([], [])"
  by (simp add: makedirs_split_def path_split_eq cut_last_def gstrip_def rstrip_def)

lemma makedirs_split_name_nonempty: "snd (makedirs_split h name) \<noteq> [] \<Longrightarrow> name \<noteq> []"
  by auto

lemma makedirs_FileExists:
  "makedirs h fs name = (fs', Some FileExistsError) \<Longrightarrow> name \<noteq> [] \<and> locate h name \<in> files fs"
proof (induction h fs name arbitrary: fs' rule: makedirs_induct)
  case (leaf h fs name)
  then show ?case using mkdir_exist_ok_FileExists by (simp add: makedirs_leaf)
next
  case (parents h fs name)
  let ?head = "fst (makedirs_split h name)"
  obtain fs1 r1 where inner: "makedirs h fs ?head = (fs1, r1)"
    by (cases "makedirs h fs ?head")
  have nf: "r1 \<noteq> Some FileExistsError"
  proof
    assume "r1 = Some FileExistsError"
    then have "?head \<noteq> [] \<and> locate h ?head \<in> files fs" using parents.IH inner by blast
    then have "path_exists h fs ?head" by (simp add: path_exists_def)
    then show False using parents.hyps by (simp add: needs_parents_def)
  qed
  have f1: "files fs1 = files fs" using makedirs_frame [OF inner] by simp
  have "mkdir_exist_ok h fs1 name = (fs', Some FileExistsError)"
    using makedirs_parents [OF parents.hyps inner] parents.prems nf
    by (auto split: if_splits)
  then show ?case using mkdir_exist_ok_FileExists [of h fs1 name fs'] f1 by simp
qed

lemma makedirs_inner_not_FileExists:
  assumes "needs_parents h fs name" "makedirs h fs (fst (makedirs_split h name)) = (fs1, r1)"
  shows "r1 \<noteq> Some FileExistsError"
proof
  assume "r1 = Some FileExistsError"
  then have "fst (makedirs_split h name) \<noteq> [] \<and> locate h (fst (makedirs_split h name)) \<in> files fs"
    using makedirs_FileExists assms(2) by blast
  then have "path_exists h fs (fst (makedirs_split h name))" by (simp add: path_exists_def)
  then show False using assms(1) by (simp add: needs_parents_def)
qed

lemma makedirs_ok_isdir: "makedirs h fs name = (fs', None) \<Longrightarrow> path_isdir h fs' name"
proof (induction h fs name arbitrary: fs' rule: makedirs_induct)
  case (leaf h fs name)
  then show ?case using mkdir_exist_ok_isdir by (simp add: makedirs_leaf)
next
  case (parents h fs name)
  let ?head = "fst (makedirs_split h name)"
  let ?tail = "snd (makedirs_split h name)"
  obtain fs1 r1 where inner: "makedirs h fs ?head = (fs1, r1)"
    by (cases "makedirs h fs ?head")
  have nf: "r1 \<noteq> Some FileExistsError"
    using makedirs_inner_not_FileExists [OF parents.hyps inner] .
  have r1: "r1 = None"
    using makedirs_parents [OF parents.hyps inner] parents.prems nf by (auto split: if_splits)
  have hd: "path_isdir h fs1 ?head" using parents.IH inner r1 by simp
  have ne: "name \<noteq> []" using parents.hyps by (auto simp: needs_parents_def)
  show ?case
  proof (cases "?tail = ''.''")
    case True
    then have "fs' = fs1" using makedirs_parents [OF parents.hyps inner] parents.prems r1 by simp
    moreover have "locate h name = locate h ?head" using True by (rule locate_makedirs_split_dot)
    ultimately show ?thesis using hd ne by (simp add: path_isdir_def)
  next
    case False
    then have "mkdir_exist_ok h fs1 name = (fs', None)"
      using makedirs_parents [OF parents.hyps inner] parents.prems r1 by simp
    then show ?thesis by (rule mkdir_exist_ok_isdir)
  qed
qed

lemma makedirs_again:
  assumes first: "makedirs h fs name = (fs1, None)" and ext: "extends fs1 fs2"
  shows "makedirs h fs2 name = (fs2, None)"
proof -
  let ?head = "fst (makedirs_split h name)"
  have dir2: "path_isdir h fs2 name"
    using makedirs_ok_isdir [OF first] ext by (rule path_isdir_mono [rotated])
  have e01: "extends fs fs1" using first by (rule makedirs_extends)
  have "\<not> needs_parents h fs2 name"
  proof (cases "needs_parents h fs name")
    case True
    obtain fsh rh where inner: "makedirs h fs ?head = (fsh, rh)" by (cases "makedirs h fs ?head")
    have nf: "rh \<noteq> Some FileExistsError" using makedirs_inner_not_FileExists [OF True inner] .
    have rh: "rh = None"
      using makedirs_parents [OF True inner] first nf by (auto split: if_splits)
    have "fs1 = fsh \<or> mkdir_exist_ok h fsh name = (fs1, None)"
      using makedirs_parents [OF True inner] first rh by (auto split: if_splits)
    then have "extends fsh fs1" using mkdir_exist_ok_extends by auto
    then have "path_isdir h fs2 ?head"
      using makedirs_ok_isdir [of h fs ?head fsh] inner rh ext
      by (metis path_isdir_mono)
    then show ?thesis by (simp add: needs_parents_def path_isdir_exists)
  next
    case False
    then show ?thesis
      using path_exists_mono [OF e01] path_exists_mono [OF ext]
      by (auto simp: needs_parents_def)
  qed
  then show ?thesis using dir2 by (simp add: makedirs_leaf mkdir_exist_ok_on_dir)
qed

lemma makedirs_var_log:
  "makedirs (posix_host ''/srv/app'' [''PESAPAL_LOG_PATH'' \<mapsto> ''/var/log/pesapal/pesapal.log''])
     (mkfs [['''', ''var'']] [] []) ''/var/log/pesapal''
   = (mkfs [['''', ''var'', ''log'', ''pesapal''], ['''', ''var'', ''log''], ['''', ''var'']] [] [], None)"
  by (simp add: path_defs fs_defs fixture_defs)

lemma dirname_var_log: "path_dirname (posix_host c e) ''/var/log/pesapal/pesapal.log'' = ''/var/log/pesapal''"
  by (simp add: path_defs fixture_defs)

lemma posix_default_log_path:
  "os_name h \<noteq> ''nt'' \<Longrightarrow> environ h ''PESAPAL_LOG_PATH'' = None
   \<Longrightarrow> log_path h = ''/tmp/pesapal_logs/pesapal.log''"
  by (simp add: log_path_def getenv_def default_log_dir_def path_join_def is_nt_def startswith_def)

lemma makedirs_tmp_logs_fresh:
  "makedirs (posix_host ''/srv/app'' Map.empty) (mkfs [] [] []) ''/tmp/pesapal_logs''
   = (mkfs [['''', ''tmp'', ''pesapal_logs''], ['''', ''tmp'']] [] [], None)"
  by (simp add: path_defs fs_defs fixture_defs)

lemma makedirs_root_refused_only:
  "makedirs (posix_host ''/'' [''PESAPAL_LOG_PATH'' \<mapsto> ''/root/forbidden/pesapal.log''])
     (mkfs [] [] [['''', ''root'']]) ''/root/forbidden''
   = (mkfs [] [] [['''', ''root'']], Some PermissionError)"
  by (simp add: path_defs fs_defs fixture_defs)

lemma makedirs_tmp_after_root:
  "makedirs (posix_host ''/'' [''PESAPAL_LOG_PATH'' \<mapsto> ''/root/forbidden/pesapal.log''])
     (mkfs [] [] [['''', ''root'']]) ''/tmp/pesapal_logs''
   = (mkfs [['''', ''tmp'', ''pesapal_logs''], ['''', ''tmp'']] [] [['''', ''root'']], None)"
  by (simp add: path_defs fs_defs fixture_defs)

lemma path_dirname_split: "path_dirname h p = fst (path_split h p)"
  by (simp add: path_dirname_def path_split_def nt_dirname_def posix_dirname_def posix_split_def
      split: prod.splits)

lemma makedirs_empty: "makedirs h fs [] = (fs, Some FileNotFoundError)"
proof -
  have "\<not> needs_parents h fs []" by (simp add: needs_parents_def)
  then show ?thesis
    by (simp add: makedirs_leaf mkdir_exist_ok_def mkdir_def path_isdir_def)
qed

lemma bare_name_dirname:
  assumes "set P \<inter> set (path_seps h) = {}" and "fst (splitdrive h P) = []"
  shows "path_dirname h P = []"
proof -
  have sd: "splitdrive h P = ([], P)"
    using assms(2) splitdrive_append [of h P "fst (splitdrive h P)" "snd (splitdrive h P)"]
    by (cases "splitdrive h P") simp
  have "dropWhile (\<lambda>c. c \<notin> set (path_seps h)) (rev P) = []"
    using assms(1) by (auto simp: dropWhile_eq_Nil_conv)
  then have "fst (cut_last (path_seps h) P) = []" by (simp add: cut_last_def)
  then show ?thesis
    by (cases "cut_last (path_seps h) P") (simp add: path_dirname_split path_split_eq sd gstrip_Nil_iff)
qed

lemma slash_is_sep: "CHR ''/'' \<in> set (path_seps h)"
  by (simp add: path_seps_def nt_seps_def)

lemma bare_host_sel [simp]:
  "os_name bare_host = ''posix''" "environ bare_host = [''PESAPAL_LOG_PATH'' \<mapsto> ''pesapal.log'']"
  "getcwd bare_host = ''/srv/app''"
  by (simp_all add: bare_host_def)

lemma bare_host_seps: "path_seps bare_host = ''/''" "splitdrive bare_host p = ([], p)"
  by (simp_all add: path_seps_def splitdrive_def is_nt_def)

lemma makedirs_bare_fallback:
  "makedirs bare_host (mkfs [] [] []) ''/tmp/pesapal_logs''
   = (mkfs [['''', ''tmp'', ''pesapal_logs''], ['''', ''tmp'']] [] [], None)"
  by (simp add: path_defs fs_defs mkfs_def)

lemma makedirs_bare_fallback_refused:
  "makedirs bare_host (mkfs [] [] [['''', ''tmp'']]) ''/tmp/pesapal_logs''
   = (mkfs [] [] [['''', ''tmp'']], Some PermissionError)"
  by (simp add: path_defs fs_defs mkfs_def)

subsection \<open>C1: the fallback\<close>

text \<open>
  C1, amended. When creating the directory of \<open>log_path\<close> raises an \<open>OSError\<close> and
  \<open>log_path\<close> does not start with \<open>/tmp\<close>, \<open>resolve\<close> replaces it by
  \<open>os.path.join('/tmp', 'pesapal_logs', 'pesapal.log')\<close> and tries once more; when that
  succeeds it returns the fallback path, and the directory of the fallback path exists.
  On a POSIX-like host the fallback path is \<open>/tmp/pesapal_logs/pesapal.log\<close>; on a host with
  \<open>os.name == 'nt'\<close> the join uses backslashes and gives \<open>nt_fallback\<close>.
\<close>

theorem fallback_when_not_tmp:
  assumes "makedirs h fs (path_dirname h (log_path h)) = (fs1, Some e)"
    and "\<not> startswith (log_path h) ''/tmp''"
    and "makedirs h fs1 (path_dirname h (fallback_log_path h)) = (fs2, None)"
  shows "resolve h fs = (fs2, Inr (fallback_log_path h))
       \<and> path_isdir h fs2 (path_dirname h (fallback_log_path h))
       \<and> (os_name h \<noteq> ''nt'' \<longrightarrow> fallback_log_path h = ''/tmp/pesapal_logs/pesapal.log''
             \<and> path_dirname h (fallback_log_path h) = ''/tmp/pesapal_logs'')
       \<and> (os_name h = ''nt'' \<longrightarrow> fallback_log_path h = nt_fallback)"
proof -
  have "resolve h fs = (fs2, Inr (fallback_log_path h))"
    using resolve_retry [OF assms] by simp
  moreover have "path_isdir h fs2 (path_dirname h (fallback_log_path h))"
    using assms(3) by (rule makedirs_ok_isdir)
  ultimately show ?thesis
    by (simp add: posix_fallback_log_path posix_dirname_fallback nt_fallback_log_path)
qed

theorem fallback_when_not_tmp_witness:
  "resolve (posix_host ''/'' [''PESAPAL_LOG_PATH'' \<mapsto> ''/root/forbidden/pesapal.log''])
     (mkfs [] [] [['''', ''root'']])
   = (mkfs [['''', ''tmp'', ''pesapal_logs''], ['''', ''tmp'']] [] [['''', ''root'']],
      Inr ''/tmp/pesapal_logs/pesapal.log'')
   \<and> path_isdir (posix_host ''/'' [''PESAPAL_LOG_PATH'' \<mapsto> ''/root/forbidden/pesapal.log''])
        (mkfs [['''', ''tmp'', ''pesapal_logs''], ['''', ''tmp'']] [] [['''', ''root'']])
        ''/tmp/pesapal_logs''"
proof -
  let ?h = "posix_host ''/'' [''PESAPAL_LOG_PATH'' \<mapsto> ''/root/forbidden/pesapal.log'']"
  have fb: "fallback_log_path ?h = ''/tmp/pesapal_logs/pesapal.log''"
    and dn: "path_dirname ?h ''/tmp/pesapal_logs/pesapal.log'' = ''/tmp/pesapal_logs''"
    by (simp_all add: posix_fallback_log_path posix_dirname_fallback)
  have a: "makedirs ?h (mkfs [] [] [['''', ''root'']]) (path_dirname ?h (log_path ?h))
      = (mkfs [] [] [['''', ''root'']], Some PermissionError)"
    by (simp only: log_path_root_forbidden dirname_root_forbidden makedirs_root_refused_only)
  have b: "\<not> startswith (log_path ?h) ''/tmp''"
    by (simp add: log_path_root_forbidden startswith_def)
  have c: "makedirs ?h (mkfs [] [] [['''', ''root'']]) (path_dirname ?h (fallback_log_path ?h))
      = (mkfs [['''', ''tmp'', ''pesapal_logs''], ['''', ''tmp'']] [] [['''', ''root'']], None)"
    by (simp only: fb dn makedirs_tmp_after_root)
  from fallback_when_not_tmp [OF a b c] show ?thesis by (simp add: fb dn)
qed

text \<open>
  C1 as stated does not hold on Windows-like hosts: there the path returned after the
  fallback is \<open>/tmp\<close> followed by \<open>pesapal_logs\<close> and \<open>pesapal.log\<close> joined with backslashes,
  not \<open>/tmp/pesapal_logs/pesapal.log\<close>.
\<close>

theorem windows_fallback_path_counterexample:
  "os_name win_host = ''nt''
   \<and> makedirs win_host (mkfs [[''C:''], butlast temp_loc, temp_loc] [] [temp_loc @ [''pesapal_logs'']])
        (path_dirname win_host (log_path win_host))
      = (mkfs [[''C:''], butlast temp_loc, temp_loc] [] [temp_loc @ [''pesapal_logs'']], Some PermissionError)
   \<and> \<not> startswith (log_path win_host) ''/tmp''
   \<and> resolve win_host (mkfs [[''C:''], butlast temp_loc, temp_loc] [] [temp_loc @ [''pesapal_logs'']])
      = (mkfs [[''C:'', ''tmp'', ''pesapal_logs''], [''C:'', ''tmp''], [''C:''], butlast temp_loc, temp_loc] []
          [temp_loc @ [''pesapal_logs'']], Inr nt_fallback)
   \<and> nt_fallback \<noteq> ''/tmp/pesapal_logs/pesapal.log''"
proof -
  let ?fs = "mkfs [[''C:''], butlast temp_loc, temp_loc] [] [temp_loc @ [''pesapal_logs'']]"
  have lp: "log_path win_host = temp_log_path" by (simp add: nt_temp_log_path)
  have dn: "path_dirname win_host temp_log_path = temp_logs_dir"
    by (simp add: path_dirname_def is_nt_def nt_dirname_temp_log_path)
  have a: "makedirs win_host ?fs (path_dirname win_host (log_path win_host)) = (?fs, Some PermissionError)"
    by (simp only: lp dn makedirs_temp_logs_refused)
  have b: "\<not> startswith (log_path win_host) ''/tmp''"
    by (simp add: lp startswith_def temp_log_path_def temp_dir_def)
  have fb: "fallback_log_path win_host = nt_fallback" by (simp add: nt_fallback_log_path)
  have c: "makedirs win_host ?fs (path_dirname win_host (fallback_log_path win_host))
      = (mkfs [[''C:'', ''tmp'', ''pesapal_logs''], [''C:'', ''tmp''], [''C:''], butlast temp_loc, temp_loc] []
          [temp_loc @ [''pesapal_logs'']], None)"
    using makedirs_nt_fallback by (simp add: fb path_dirname_def is_nt_def)
  have r: "resolve win_host ?fs
      = (mkfs [[''C:'', ''tmp'', ''pesapal_logs''], [''C:'', ''tmp''], [''C:''], butlast temp_loc, temp_loc] []
          [temp_loc @ [''pesapal_logs'']], Inr nt_fallback)"
    using resolve_retry [OF a b c] by (simp add: fb)
  have "nt_fallback \<noteq> ''/tmp/pesapal_logs/pesapal.log''" by (simp add: nt_fallback_def)
  then show ?thesis using a b r by simp
qed

subsection \<open>C2: errors that are propagated\<close>

text \<open>
  C2. When creating the directory of \<open>log_path\<close> fails and either \<open>log_path\<close> starts with
  \<open>/tmp\<close> (the script's test for "rooted under /tmp") or the retry on the fallback path
  fails too, \<open>resolve\<close> returns that error and no path. The file system it leaves is the
  one left by the last attempt: no further creation is tried.
\<close>

theorem resolve_propagates_error:
  assumes "makedirs h fs (path_dirname h (log_path h)) = (fs1, Some e)"
  shows "(startswith (log_path h) ''/tmp'' \<longrightarrow> resolve h fs = (fs1, Inl e)) \<and>
         (\<not> startswith (log_path h) ''/tmp'' \<longrightarrow>
            makedirs h fs1 (path_dirname h (fallback_log_path h)) = (fs2, Some e2) \<longrightarrow>
            resolve h fs = (fs2, Inl e2))"
  using assms by (simp add: resolve_def)

theorem resolve_propagates_error_witness:
  "resolve (posix_host ''/'' [''PESAPAL_LOG_PATH'' \<mapsto> ''/tmp/forbidden/pesapal.log''])
     (mkfs [['''', ''tmp'']] [] [['''', ''tmp'', ''forbidden'']])
   = (mkfs [['''', ''tmp'']] [] [['''', ''tmp'', ''forbidden'']], Inl PermissionError) \<and>
   resolve (posix_host ''/'' [''PESAPAL_LOG_PATH'' \<mapsto> ''/root/forbidden/pesapal.log''])
     (mkfs [] [] [['''', ''root''], ['''', ''tmp'']])
   = (mkfs [] [] [['''', ''root''], ['''', ''tmp'']], Inl PermissionError)"
  using resolve_propagates_error [of "posix_host ''/'' [''PESAPAL_LOG_PATH'' \<mapsto> ''/root/forbidden/pesapal.log'']"
      "mkfs [] [] [['''', ''root''], ['''', ''tmp'']]" "mkfs [] [] [['''', ''root''], ['''', ''tmp'']]" PermissionError
      "mkfs [] [] [['''', ''root''], ['''', ''tmp'']]" PermissionError]
  using resolve_propagates_error [of "posix_host ''/'' [''PESAPAL_LOG_PATH'' \<mapsto> ''/tmp/forbidden/pesapal.log'']"
      "mkfs [['''', ''tmp'']] [] [['''', ''tmp'', ''forbidden'']]" "mkfs [['''', ''tmp'']] [] [['''', ''tmp'', ''forbidden'']]" PermissionError]
  by (simp add: log_path_tmp_forbidden dirname_tmp_forbidden makedirs_tmp_forbidden startswith_def
      log_path_root_forbidden dirname_root_forbidden makedirs_root_forbidden makedirs_tmp_refused
      posix_fallback_log_path posix_dirname_fallback)

subsection \<open>C3: an explicit override that can be created\<close>

text \<open>
  C3. When \<open>PESAPAL_LOG_PATH\<close> is set to \<open>P\<close> and the directory of \<open>P\<close> can be created
  (\<open>os.makedirs\<close> on it succeeds), \<open>resolve\<close> returns exactly \<open>P\<close>, whatever the default
  would have been, and afterwards the directory of \<open>P\<close> exists.
\<close>

theorem override_creatable_returned:
  assumes "environ h ''PESAPAL_LOG_PATH'' = Some P"
    and "makedirs h fs (path_dirname h P) = (fs', None)"
  shows "resolve h fs = (fs', Inr P) \<and> path_isdir h fs' (path_dirname h P)"
proof -
  have "log_path h = P" using assms(1) by (simp add: log_path_def getenv_def)
  then have "resolve h fs = (fs', Inr P)" using assms(2) by (simp add: resolve_def)
  then show ?thesis using makedirs_ok_isdir [OF assms(2)] by simp
qed

theorem override_creatable_returned_witness:
  "resolve (posix_host ''/srv/app'' [''PESAPAL_LOG_PATH'' \<mapsto> ''/var/log/pesapal/pesapal.log''])
     (mkfs [['''', ''var'']] [] [])
   = (mkfs [['''', ''var'', ''log'', ''pesapal''], ['''', ''var'', ''log''], ['''', ''var'']] [] [],
      Inr ''/var/log/pesapal/pesapal.log'')
   \<and> path_isdir (posix_host ''/srv/app'' [''PESAPAL_LOG_PATH'' \<mapsto> ''/var/log/pesapal/pesapal.log''])
        (mkfs [['''', ''var'', ''log'', ''pesapal''], ['''', ''var'', ''log''], ['''', ''var'']] [] [])
        ''/var/log/pesapal''"
  using override_creatable_returned [of
      "posix_host ''/srv/app'' [''PESAPAL_LOG_PATH'' \<mapsto> ''/var/log/pesapal/pesapal.log'']"
      "''/var/log/pesapal/pesapal.log''" "mkfs [['''', ''var'']] [] []"
      "mkfs [['''', ''var'', ''log'', ''pesapal''], ['''', ''var'', ''log''], ['''', ''var'']] [] []"]
  by (simp add: dirname_var_log makedirs_var_log)

subsection \<open>C4: the default on POSIX-like hosts\<close>

text \<open>
  C4. On a host with \<open>os.name != 'nt'\<close> and no \<open>PESAPAL_LOG_PATH\<close>, whenever \<open>resolve\<close>
  returns a path it is exactly \<open>/tmp/pesapal_logs/pesapal.log\<close> and the directory
  \<open>/tmp/pesapal_logs\<close> exists afterwards. It returns exactly when creating that directory
  succeeds, and raises the error of that creation otherwise. (Nothing else in the
  environment is read on such a host.)
\<close>

theorem posix_default_returned:
  assumes "os_name h \<noteq> ''nt''" and "environ h ''PESAPAL_LOG_PATH'' = None"
  shows "(resolve h fs = (fs', Inr p) \<longrightarrow>
            p = ''/tmp/pesapal_logs/pesapal.log'' \<and> path_isdir h fs' ''/tmp/pesapal_logs'')
       \<and> (makedirs h fs ''/tmp/pesapal_logs'' = (fs', None) \<longrightarrow>
            resolve h fs = (fs', Inr ''/tmp/pesapal_logs/pesapal.log''))
       \<and> (makedirs h fs ''/tmp/pesapal_logs'' = (fs', Some e) \<longrightarrow> resolve h fs = (fs', Inl e))"
proof -
  have lp: "log_path h = ''/tmp/pesapal_logs/pesapal.log''"
    using assms by (rule posix_default_log_path)
  have dn: "path_dirname h (log_path h) = ''/tmp/pesapal_logs''"
    using assms(1) by (simp add: lp posix_dirname_fallback)
  have sw: "startswith (log_path h) ''/tmp''" by (simp add: lp startswith_def)
  obtain fs1 r1 where m: "makedirs h fs ''/tmp/pesapal_logs'' = (fs1, r1)"
    by (cases "makedirs h fs ''/tmp/pesapal_logs''")
  show ?thesis
  proof (cases r1)
    case None
    then have "makedirs h fs (path_dirname h (log_path h)) = (fs1, None)"
      using m by (simp only: dn)
    then have "resolve h fs = (fs1, Inr (log_path h))" by (rule resolve_first_ok)
    then have "resolve h fs = (fs1, Inr ''/tmp/pesapal_logs/pesapal.log'')"
      by (simp only: lp)
    moreover have "path_isdir h fs1 ''/tmp/pesapal_logs''"
      using m None makedirs_ok_isdir by blast
    ultimately show ?thesis using m None by auto
  next
    case (Some e1)
    then have "makedirs h fs (path_dirname h (log_path h)) = (fs1, Some e1)"
      using m by (simp only: dn)
    then have "resolve h fs = (fs1, Inl e1)" using sw by (rule resolve_first_error_tmp)
    then show ?thesis using m Some by auto
  qed
qed

theorem posix_default_returned_witness:
  "resolve (posix_host ''/srv/app'' Map.empty) (mkfs [] [] [])
     = (mkfs [['''', ''tmp'', ''pesapal_logs''], ['''', ''tmp'']] [] [], Inr ''/tmp/pesapal_logs/pesapal.log'')
   \<and> path_isdir (posix_host ''/srv/app'' Map.empty)
        (mkfs [['''', ''tmp'', ''pesapal_logs''], ['''', ''tmp'']] [] []) ''/tmp/pesapal_logs''"
proof -
  note t = posix_default_returned [of "posix_host ''/srv/app'' Map.empty" "mkfs [] [] []"
      "mkfs [['''', ''tmp'', ''pesapal_logs''], ['''', ''tmp'']] [] []"
      "''/tmp/pesapal_logs/pesapal.log''" PermissionError]
  have a: "os_name (posix_host ''/srv/app'' Map.empty) \<noteq> ''nt''"
    and b: "environ (posix_host ''/srv/app'' Map.empty) ''PESAPAL_LOG_PATH'' = None"
    by simp_all
  from t [OF a b] makedirs_tmp_logs_fresh show ?thesis by blast
qed

subsection \<open>C5: the default on Windows-like hosts\<close>

text \<open>
  C5, amended. On a host with \<open>os.name == 'nt'\<close> and no \<open>PESAPAL_LOG_PATH\<close>, the default
  directory is the value of \<open>TEMP\<close> when it is set and the working directory otherwise, and
  \<open>log_path\<close> is that directory joined with \<open>pesapal_logs\<close> and \<open>pesapal.log\<close>. With
  \<open>TEMP\<close> set to \<open>temp_dir\<close> (the directory \<open>AppData/Local/Temp\<close> of user \<open>x\<close> on drive
  \<open>C:\<close>, written with backslashes) \<open>log_path\<close> is \<open>temp_log_path\<close>, and this is the path
  returned when its directory can be created.
\<close>

theorem windows_default_dir:
  assumes "os_name h = ''nt''" and "environ h ''PESAPAL_LOG_PATH'' = None"
  shows "default_log_dir h = (case environ h ''TEMP'' of Some t \<Rightarrow> t | None \<Rightarrow> getcwd h)
    \<and> log_path h = nt_join (default_log_dir h) [''pesapal_logs'', ''pesapal.log'']
    \<and> (environ h ''TEMP'' = Some temp_dir \<longrightarrow>
         log_path h = temp_log_path \<and>
         (makedirs h fs (path_dirname h temp_log_path) = (fs', None) \<longrightarrow>
            resolve h fs = (fs', Inr temp_log_path)))"
proof -
  have d: "default_log_dir h = (case environ h ''TEMP'' of Some t \<Rightarrow> t | None \<Rightarrow> getcwd h)"
    using assms(1) by (simp add: default_log_dir_def getenv_def)
  have l: "log_path h = nt_join (default_log_dir h) [''pesapal_logs'', ''pesapal.log'']"
    using assms by (simp add: log_path_def getenv_def path_join_def is_nt_def)
  have t: "log_path h = temp_log_path" if "environ h ''TEMP'' = Some temp_dir"
    using nt_temp_log_path [OF assms that] .
  show ?thesis using d l t by (auto simp: resolve_def)
qed

theorem windows_default_dir_witness:
  "default_log_dir win_host = temp_dir \<and> log_path win_host = temp_log_path \<and>
   resolve win_host (mkfs [butlast temp_loc, temp_loc] [] [])
     = (mkfs [temp_loc @ [''pesapal_logs''], butlast temp_loc, temp_loc] [] [], Inr temp_log_path)"
proof -
  have a: "os_name win_host = ''nt''" and b: "environ win_host ''PESAPAL_LOG_PATH'' = None"
    and c: "environ win_host ''TEMP'' = Some temp_dir"
    by simp_all
  have m: "makedirs win_host (mkfs [butlast temp_loc, temp_loc] [] []) (path_dirname win_host temp_log_path)
      = (mkfs [temp_loc @ [''pesapal_logs''], butlast temp_loc, temp_loc] [] [], None)"
    by (simp add: path_dirname_def is_nt_def nt_dirname_temp_log_path makedirs_temp_logs_ok)
  note w = windows_default_dir [OF a b, of "mkfs [butlast temp_loc, temp_loc] [] []"
      "mkfs [temp_loc @ [''pesapal_logs''], butlast temp_loc, temp_loc] [] []"]
  from w c m have "log_path win_host = temp_log_path"
    and "resolve win_host (mkfs [butlast temp_loc, temp_loc] [] [])
     = (mkfs [temp_loc @ [''pesapal_logs''], butlast temp_loc, temp_loc] [] [], Inr temp_log_path)"
    by blast+
  moreover from w have "default_log_dir win_host = temp_dir" by (simp add: c)
  ultimately show ?thesis by blast
qed

text \<open>
  C5 as stated does not hold where that directory cannot be created: \<open>resolve\<close> then
  returns the fallback path.
\<close>

theorem windows_temp_refused_counterexample:
  "os_name win_host = ''nt'' \<and> environ win_host ''PESAPAL_LOG_PATH'' = None
   \<and> environ win_host ''TEMP'' = Some temp_dir
   \<and> snd (resolve win_host (mkfs [[''C:''], butlast temp_loc, temp_loc] [] [temp_loc @ [''pesapal_logs'']]))
       = Inr nt_fallback
   \<and> nt_fallback \<noteq> temp_log_path"
proof -
  have lp: "log_path win_host = temp_log_path" by (simp add: nt_temp_log_path)
  have ns: "\<not> startswith temp_log_path ''/tmp''"
    by (simp add: startswith_def temp_log_path_def temp_dir_def)
  have "resolve win_host (mkfs [[''C:''], butlast temp_loc, temp_loc] [] [temp_loc @ [''pesapal_logs'']])
     = (mkfs [[''C:'', ''tmp'', ''pesapal_logs''], [''C:'', ''tmp''], [''C:''], butlast temp_loc, temp_loc] []
        [temp_loc @ [''pesapal_logs'']], Inr nt_fallback)"
    by (simp add: resolve_def lp ns path_dirname_def is_nt_def nt_dirname_temp_log_path
        makedirs_temp_logs_refused nt_fallback_log_path makedirs_nt_fallback)
  moreover have "nt_fallback \<noteq> temp_log_path"
    by (simp add: nt_fallback_def temp_log_path_def temp_dir_def)
  ultimately show ?thesis by simp
qed

subsection \<open>C6: what a run creates\<close>

text \<open>
  C6, amended. A run of \<open>resolve\<close> only adds directories: what existed before is kept.
  A path is returned exactly when one attempt succeeded, the first, or the retry after the
  first failed; an error is returned when the first attempt failed and either no retry
  was made or the retry failed too. An attempt that needs no parent directory (only the
  last directory is missing) creates nothing when it fails.
\<close>

theorem resolve_attempts:
  assumes "resolve h fs = (fs', r)"
  shows "dirs fs \<subseteq> dirs fs' \<and> files fs' = files fs \<and> refused fs' = refused fs \<and>
    (case r of
       Inr p \<Rightarrow>
         (makedirs h fs (path_dirname h (log_path h)) = (fs', None) \<and> p = log_path h) \<or>
         (\<exists>fs1 e1. makedirs h fs (path_dirname h (log_path h)) = (fs1, Some e1)
            \<and> makedirs h fs1 (path_dirname h (fallback_log_path h)) = (fs', None)
            \<and> p = fallback_log_path h)
     | Inl e \<Rightarrow>
         (\<exists>fs1 e1. makedirs h fs (path_dirname h (log_path h)) = (fs1, Some e1)
            \<and> (if startswith (log_path h) ''/tmp'' then fs' = fs1 \<and> e = e1
                else makedirs h fs1 (path_dirname h (fallback_log_path h)) = (fs', Some e))
            \<and> (\<not> needs_parents h fs (path_dirname h (log_path h)) \<longrightarrow> fs1 = fs)
            \<and> (\<not> needs_parents h fs1 (path_dirname h (fallback_log_path h))
                 \<longrightarrow> \<not> needs_parents h fs (path_dirname h (log_path h)) \<longrightarrow> fs' = fs)))"
proof -
  obtain fs1 r1 where first: "makedirs h fs (path_dirname h (log_path h)) = (fs1, r1)"
    by (cases "makedirs h fs (path_dirname h (log_path h))")
  obtain fs2 r2 where second: "makedirs h fs1 (path_dirname h (fallback_log_path h)) = (fs2, r2)"
    by (cases "makedirs h fs1 (path_dirname h (fallback_log_path h))")
  have f1: "dirs fs \<subseteq> dirs fs1 \<and> files fs1 = files fs \<and> refused fs1 = refused fs"
    using makedirs_frame [OF first] .
  have f2: "dirs fs1 \<subseteq> dirs fs2 \<and> files fs2 = files fs1 \<and> refused fs2 = refused fs1"
    using makedirs_frame [OF second] .
  have leaf1: "\<not> needs_parents h fs (path_dirname h (log_path h)) \<Longrightarrow> r1 \<noteq> None \<Longrightarrow> fs1 = fs"
    using first mkdir_exist_ok_error_unchanged [of h fs "path_dirname h (log_path h)" fs1]
    by (auto simp: makedirs_leaf)
  have leaf2: "\<not> needs_parents h fs1 (path_dirname h (fallback_log_path h)) \<Longrightarrow> r2 \<noteq> None \<Longrightarrow> fs2 = fs1"
    using second mkdir_exist_ok_error_unchanged [of h fs1 "path_dirname h (fallback_log_path h)" fs2]
    by (auto simp: makedirs_leaf)
  show ?thesis
  proof (cases r1)
    case None
    then have "resolve h fs = (fs1, Inr (log_path h))" using first by (simp add: resolve_def)
    then show ?thesis using assms f1 first None by auto
  next
    case (Some e1)
    show ?thesis
    proof (cases "startswith (log_path h) ''/tmp''")
      case True
      then have "resolve h fs = (fs1, Inl e1)" using first Some by (simp add: resolve_def)
      then show ?thesis using assms f1 first Some True leaf1 by auto
    next
      case False
      show ?thesis
      proof (cases r2)
        case None
        then have "resolve h fs = (fs2, Inr (fallback_log_path h))"
          using first second Some False by (simp add: resolve_def)
        then show ?thesis using assms f1 f2 first second Some None by auto
      next
        case (Some e2)
        then have "resolve h fs = (fs2, Inl e2)"
          using first second \<open>r1 = Some e1\<close> False by (simp add: resolve_def)
        then show ?thesis
          using assms f1 f2 first second \<open>r1 = Some e1\<close> Some False leaf1 leaf2 by auto
      qed
    qed
  qed
qed

theorem resolve_attempts_witness:
  "resolve (posix_host ''/'' [''PESAPAL_LOG_PATH'' \<mapsto> ''/tmp/forbidden/pesapal.log''])
     (mkfs [['''', ''tmp'']] [] [['''', ''tmp'', ''forbidden'']])
   = (mkfs [['''', ''tmp'']] [] [['''', ''tmp'', ''forbidden'']], Inl PermissionError)
   \<and> (\<exists>fs1 e1. makedirs (posix_host ''/'' [''PESAPAL_LOG_PATH'' \<mapsto> ''/tmp/forbidden/pesapal.log''])
          (mkfs [['''', ''tmp'']] [] [['''', ''tmp'', ''forbidden'']]) ''/tmp/forbidden'' = (fs1, Some e1)
          \<and> mkfs [['''', ''tmp'']] [] [['''', ''tmp'', ''forbidden'']] = fs1 \<and> PermissionError = e1)"
proof -
  have r: "resolve (posix_host ''/'' [''PESAPAL_LOG_PATH'' \<mapsto> ''/tmp/forbidden/pesapal.log''])
     (mkfs [['''', ''tmp'']] [] [['''', ''tmp'', ''forbidden'']])
   = (mkfs [['''', ''tmp'']] [] [['''', ''tmp'', ''forbidden'']], Inl PermissionError)"
    by (simp add: resolve_first_error_tmp log_path_tmp_forbidden dirname_tmp_forbidden
        makedirs_tmp_forbidden startswith_def)
  show ?thesis
    using resolve_attempts [OF r] r
    by (simp add: log_path_tmp_forbidden dirname_tmp_forbidden startswith_def)
qed

text \<open>
  C6 as stated does not hold: \<open>os.makedirs\<close> creates the missing directories one by one,
  so an attempt can fail after it has made some of them. With \<open>/tmp\<close> present and
  \<open>/tmp/app/logs\<close> refused, \<open>resolve\<close> ends in an error and leaves \<open>/tmp/app\<close> behind.
\<close>

theorem resolve_error_creates_directory_counterexample:
  "snd (resolve (posix_host ''/'' [''PESAPAL_LOG_PATH'' \<mapsto> ''/tmp/app/logs/pesapal.log''])
          (mkfs [['''', ''tmp'']] [] [['''', ''tmp'', ''app'', ''logs'']])) = Inl PermissionError
   \<and> ['''', ''tmp'', ''app''] \<in> dirs (fst (resolve (posix_host ''/'' [''PESAPAL_LOG_PATH'' \<mapsto> ''/tmp/app/logs/pesapal.log''])
          (mkfs [['''', ''tmp'']] [] [['''', ''tmp'', ''app'', ''logs'']])))
   \<and> ['''', ''tmp'', ''app''] \<notin> dirs (mkfs [['''', ''tmp'']] [] [['''', ''tmp'', ''app'', ''logs'']])"
  by (simp add: path_defs fs_defs script_defs fixture_defs)

subsection \<open>C8: the fallback guard is a string prefix test\<close>

text \<open>
  C8. When \<open>log_path\<close> starts with the four characters \<open>/tmp\<close> but its directory is not
  located inside \<open>/tmp\<close> (as for \<open>/tmpdata/pesapal.log\<close>), a failure to create the
  directory is propagated at once, with the file system as the failed attempt left it:
  the fallback is not tried.
\<close>

theorem prefix_test_blocks_fallback:
  assumes "startswith (log_path h) ''/tmp''"
    and "\<not> prefix ['''', ''tmp''] (locate h (path_dirname h (log_path h)))"
    and "makedirs h fs (path_dirname h (log_path h)) = (fs1, Some e)"
  shows "resolve h fs = (fs1, Inl e)"
  using assms by (simp add: resolve_def)

theorem prefix_test_blocks_fallback_witness:
  "resolve (posix_host ''/'' [''PESAPAL_LOG_PATH'' \<mapsto> ''/tmpdata/pesapal.log''])
     (mkfs [['''', ''tmp'']] [] [['''', ''tmpdata'']])
   = (mkfs [['''', ''tmp'']] [] [['''', ''tmpdata'']], Inl PermissionError)"
  using prefix_test_blocks_fallback [of "posix_host ''/'' [''PESAPAL_LOG_PATH'' \<mapsto> ''/tmpdata/pesapal.log'']"
      "mkfs [['''', ''tmp'']] [] [['''', ''tmpdata'']]" "mkfs [['''', ''tmp'']] [] [['''', ''tmpdata'']]" PermissionError]
  by (simp add: log_path_tmpdata dirname_tmpdata makedirs_tmpdata locate_tmpdata startswith_def)

subsection \<open>C9: the explicit override, \<open>TEMP\<close> and the working directory\<close>

text \<open>
  C9, amended. On hosts of the same kind, two environments that set \<open>PESAPAL_LOG_PATH\<close> to
  the same value compute the same \<open>log_path\<close>, the override, whatever \<open>TEMP\<close> and the
  working directory are; and with the same working directory the whole result of
  \<open>resolve\<close> is the same, whatever else the environments hold.
\<close>

theorem override_fixes_log_path:
  assumes "environ h1 ''PESAPAL_LOG_PATH'' = Some P"
    and "environ h2 ''PESAPAL_LOG_PATH'' = Some P"
    and "os_name h1 = os_name h2"
  shows "log_path h1 = P \<and> log_path h2 = P \<and>
         (getcwd h1 = getcwd h2 \<longrightarrow> resolve h1 fs = resolve h2 fs)"
proof -
  have lp: "log_path h1 = P" "log_path h2 = P"
    using assms by (simp_all add: log_path_def getenv_def)
  have "resolve h1 fs = resolve h2 fs" if cwd: "getcwd h1 = getcwd h2"
  proof -
    note c = host_cong [OF assms(3) cwd]
    have fb: "fallback_log_path h1 = fallback_log_path h2"
      by (simp add: fallback_log_path_def c)
    have mk: "makedirs h1 = makedirs h2"
      using makedirs_host_cong [OF assms(3) cwd] by (simp add: fun_eq_iff)
    show ?thesis by (simp add: resolve_def lp fb mk c split: prod.splits option.splits)
  qed
  then show ?thesis using lp by simp
qed

theorem override_fixes_log_path_witness:
  "log_path (posix_host ''/srv/app'' [''PESAPAL_LOG_PATH'' \<mapsto> ''/var/log/pesapal.log'', ''TEMP'' \<mapsto> ''/scratch''])
     = ''/var/log/pesapal.log''
   \<and> resolve (posix_host ''/srv/app'' [''PESAPAL_LOG_PATH'' \<mapsto> ''/var/log/pesapal.log'', ''TEMP'' \<mapsto> ''/scratch''])
         (mkfs [['''', ''var'']] [] [])
     = resolve (posix_host ''/srv/app'' [''PESAPAL_LOG_PATH'' \<mapsto> ''/var/log/pesapal.log'']) (mkfs [['''', ''var'']] [] [])"
  using override_fixes_log_path [of
      "posix_host ''/srv/app'' [''PESAPAL_LOG_PATH'' \<mapsto> ''/var/log/pesapal.log'', ''TEMP'' \<mapsto> ''/scratch'']"
      "''/var/log/pesapal.log''"
      "posix_host ''/srv/app'' [''PESAPAL_LOG_PATH'' \<mapsto> ''/var/log/pesapal.log'']"
      "mkfs [['''', ''var'']] [] []"]
  by simp

text \<open>
  C9 as stated does not hold: with the relative override \<open>logs/pesapal.log\<close> the directory
  is created below the working directory, so two runs that differ only in the working
  directory can return different paths (the override in \<open>/srv/app\<close>, the fallback in
  \<open>/ro\<close>, where \<open>logs\<close> is refused).
\<close>

theorem cwd_changes_result_counterexample:
  "environ (posix_host ''/srv/app'' [''PESAPAL_LOG_PATH'' \<mapsto> ''logs/pesapal.log'']) ''PESAPAL_LOG_PATH''
     = environ (posix_host ''/ro'' [''PESAPAL_LOG_PATH'' \<mapsto> ''logs/pesapal.log'']) ''PESAPAL_LOG_PATH''
   \<and> snd (resolve (posix_host ''/srv/app'' [''PESAPAL_LOG_PATH'' \<mapsto> ''logs/pesapal.log''])
        (mkfs [['''', ''srv''], ['''', ''srv'', ''app''], ['''', ''ro''], ['''', ''tmp'']] [] [['''', ''ro'', ''logs'']]))
      = Inr ''logs/pesapal.log''
   \<and> snd (resolve (posix_host ''/ro'' [''PESAPAL_LOG_PATH'' \<mapsto> ''logs/pesapal.log''])
        (mkfs [['''', ''srv''], ['''', ''srv'', ''app''], ['''', ''ro''], ['''', ''tmp'']] [] [['''', ''ro'', ''logs'']]))
      = Inr ''/tmp/pesapal_logs/pesapal.log''"
  by (simp add: path_defs fs_defs script_defs fixture_defs)

subsection \<open>C10: an override without a directory\<close>

text \<open>
  C10, amended. When \<open>PESAPAL_LOG_PATH\<close> is a bare file name (no separator, no drive), its
  directory is the empty string, \<open>os.makedirs('')\<close> raises \<open>FileNotFoundError\<close>, and since
  the name does not start with \<open>/tmp\<close> the fallback is tried: \<open>resolve\<close> returns the
  fallback path when the fallback directory can be created, and the error of that
  creation otherwise. On a POSIX-like host the fallback path is
  \<open>/tmp/pesapal_logs/pesapal.log\<close>.
\<close>

theorem bare_file_name_falls_back:
  assumes "environ h ''PESAPAL_LOG_PATH'' = Some P"
    and "set P \<inter> set (path_seps h) = {}" and "fst (splitdrive h P) = []"
  shows "path_dirname h P = []
       \<and> makedirs h fs (path_dirname h P) = (fs, Some FileNotFoundError)
       \<and> \<not> startswith P ''/tmp''
       \<and> resolve h fs =
           (case makedirs h fs (path_dirname h (fallback_log_path h)) of
              (fs2, None) \<Rightarrow> (fs2, Inr (fallback_log_path h))
            | (fs2, Some e2) \<Rightarrow> (fs2, Inl e2))
       \<and> (os_name h \<noteq> ''nt'' \<longrightarrow> fallback_log_path h = ''/tmp/pesapal_logs/pesapal.log'')"
proof -
  have lp: "log_path h = P" using assms(1) by (simp add: log_path_def getenv_def)
  have dn: "path_dirname h P = []" using assms(2,3) by (rule bare_name_dirname)
  have ns: "\<not> startswith P ''/tmp''"
  proof
    assume "startswith P ''/tmp''"
    then have "CHR ''/'' \<in> set P" by (auto simp: startswith_def prefix_def)
    then show False using assms(2) slash_is_sep [of h] by blast
  qed
  show ?thesis
    by (simp add: resolve_def lp dn ns makedirs_empty posix_fallback_log_path)
qed

theorem bare_file_name_falls_back_witness:
  "path_dirname bare_host ''pesapal.log'' = []
   \<and> resolve bare_host (mkfs [] [] [])
     = (mkfs [['''', ''tmp'', ''pesapal_logs''], ['''', ''tmp'']] [] [], Inr ''/tmp/pesapal_logs/pesapal.log'')"
proof -
  have a: "environ bare_host ''PESAPAL_LOG_PATH'' = Some ''pesapal.log''" by simp
  have b: "set ''pesapal.log'' \<inter> set (path_seps bare_host) = {}" by (simp add: bare_host_seps)
  have c: "fst (splitdrive bare_host ''pesapal.log'') = []" by (simp add: bare_host_seps)
  have fb: "fallback_log_path bare_host = ''/tmp/pesapal_logs/pesapal.log''"
    and dn: "path_dirname bare_host ''/tmp/pesapal_logs/pesapal.log'' = ''/tmp/pesapal_logs''"
    by (simp_all add: posix_fallback_log_path posix_dirname_fallback)
  from bare_file_name_falls_back [OF a b c, of "mkfs [] [] []"]
  show ?thesis by (simp add: fb dn makedirs_bare_fallback)
qed

text \<open>
  C10 as stated does not hold where the fallback directory cannot be created: with
  \<open>/tmp\<close> refused, \<open>resolve\<close> raises and returns no path.
\<close>

theorem bare_file_name_fallback_refused_counterexample:
  "environ bare_host ''PESAPAL_LOG_PATH'' = Some ''pesapal.log''
   \<and> CHR ''/'' \<notin> set ''pesapal.log''
   \<and> resolve bare_host (mkfs [] [] [['''', ''tmp'']]) = (mkfs [] [] [['''', ''tmp'']], Inl PermissionError)"
proof -
  have lp: "log_path bare_host = ''pesapal.log''" by (simp add: log_path_def getenv_def)
  have dn: "path_dirname bare_host ''pesapal.log'' = []"
    by (simp add: path_dirname_def is_nt_def posix_dirname_def cut_last_def)
  have a: "makedirs bare_host (mkfs [] [] [['''', ''tmp'']]) (path_dirname bare_host (log_path bare_host))
      = (mkfs [] [] [['''', ''tmp'']], Some FileNotFoundError)"
    by (simp only: lp dn makedirs_empty)
  have b: "\<not> startswith (log_path bare_host) ''/tmp''" by (simp add: lp startswith_def)
  have fb: "fallback_log_path bare_host = ''/tmp/pesapal_logs/pesapal.log''"
    and dnf: "path_dirname bare_host ''/tmp/pesapal_logs/pesapal.log'' = ''/tmp/pesapal_logs''"
    by (simp_all add: posix_fallback_log_path posix_dirname_fallback)
  have c: "makedirs bare_host (mkfs [] [] [['''', ''tmp'']]) (path_dirname bare_host (fallback_log_path bare_host))
      = (mkfs [] [] [['''', ''tmp'']], Some PermissionError)"
    by (simp only: fb dnf makedirs_bare_fallback_refused)
  show ?thesis using resolve_retry [OF a b c] by simp
qed

end
